(* ===== verification/Prelude.thy ===== *)
theory Prelude
  imports Main "HOL-Library.Word"
begin

text \<open>
  Shared vocabulary of the development: bytes and machine integers, Go's strings and slices,
  the outcome of a Go call (a value, an error, or a run-time panic), the error values of
  package \<open>wire\<close>, and the generic lemmas the component theories use.

  A Go string or byte slice is a list of bytes. An index or slice expression out of range
  panics in Go, so it is the value \<^term>\<open>Panic\<close> here and never an unspecified element. A slice
  expression may in Go also reach beyond the length up to the capacity; the model is stricter
  and treats that as a panic, so a theorem that excludes \<^term>\<open>Panic\<close> also excludes reads of
  stale bytes behind a slice.
\<close>

unbundle bit_operations_syntax

type_synonym byte = "8 word"
type_synonym u16 = "16 word"
type_synonym u32 = "32 word"
type_synonym u64 = "64 word"
type_synonym gostring = "byte list"

named_theorems bytes_simps "lengths and splits of byte strings"
named_theorems writes "what a writer stores into a buffer that is long enough"

subsection \<open>Outcomes of Go calls\<close>

datatype ('e, 'a) res = Ok 'a | Err 'e | Panic

primrec bindR :: "('e, 'a) res \<Rightarrow> ('a \<Rightarrow> ('e, 'b) res) \<Rightarrow> ('e, 'b) res" where
  "bindR (Ok x) f = f x"
| "bindR (Err e) f = Err e"
| "bindR Panic f = Panic"

lemma bindR_cong [fundef_cong]:
  "m = m' \<Longrightarrow> (\<And>x. m' = Ok x \<Longrightarrow> f x = g x) \<Longrightarrow> bindR m f = bindR m' g"
  by (cases m') auto

lemma bindR_eq_Ok: "bindR m f = Ok y \<longleftrightarrow> (\<exists>x. m = Ok x \<and> f x = Ok y)"
  by (cases m) auto

lemma bindR_eq_Panic: "bindR m f = Panic \<longleftrightarrow> m = Panic \<or> (\<exists>x. m = Ok x \<and> f x = Panic)"
  by (cases m) auto

lemma bindR_not_Panic:
  "m \<noteq> Panic \<Longrightarrow> (\<And>x. m = Ok x \<Longrightarrow> f x \<noteq> Panic) \<Longrightarrow> bindR m f \<noteq> Panic"
  by (cases m) auto

lemma bindR_assoc: "bindR (bindR m f) g = bindR m (\<lambda>x. bindR (f x) g)"
  by (cases m) auto

text \<open>\<open>mapErr h m\<close> is Go's \<open>if err != nil { return h(err) }\<close> after the call \<open>m\<close>.\<close>

primrec mapErr :: "('e \<Rightarrow> 'f) \<Rightarrow> ('e, 'a) res \<Rightarrow> ('f, 'a) res" where
  "mapErr h (Ok x) = Ok x"
| "mapErr h (Err e) = Err (h e)"
| "mapErr h Panic = Panic"

lemma mapErr_eq_Ok [simp]: "mapErr h m = Ok x \<longleftrightarrow> m = Ok x"
  by (cases m) auto

lemma mapErr_eq_Panic [simp]: "mapErr h m = Panic \<longleftrightarrow> m = Panic"
  by (cases m) auto

text \<open>Rules that walk through a program to show that it does not panic.\<close>

lemma if_not_Panic: "(c \<Longrightarrow> a \<noteq> Panic) \<Longrightarrow> (\<not> c \<Longrightarrow> b \<noteq> Panic) \<Longrightarrow> (if c then a else b) \<noteq> Panic"
  by simp

lemma case_prod_not_Panic: "(\<And>a b. x = (a, b) \<Longrightarrow> f a b \<noteq> Panic) \<Longrightarrow> (case x of (a, b) \<Rightarrow> f a b) \<noteq> Panic"
  by (cases x) simp

lemma mapErr_not_Panic: "m \<noteq> Panic \<Longrightarrow> mapErr h m \<noteq> Panic"
  by simp

lemmas no_panic = if_not_Panic case_prod_not_Panic mapErr_not_Panic bindR_not_Panic

text \<open>Taking a successful run apart, one step at a time.\<close>

lemma bindR_OkE: "bindR m f = Ok y \<Longrightarrow> (\<And>x. m = Ok x \<Longrightarrow> f x = Ok y \<Longrightarrow> P) \<Longrightarrow> P"
  by (auto simp: bindR_eq_Ok)

lemma if_Err_OkE: "(if c then Err e else m) = Ok y \<Longrightarrow> (\<not> c \<Longrightarrow> m = Ok y \<Longrightarrow> P) \<Longrightarrow> P"
  by (auto split: if_splits)

lemma case_prod_OkE:
  "(case x of (a, b) \<Rightarrow> f a b) = Ok y \<Longrightarrow> (\<And>a b. x = (a, b) \<Longrightarrow> f a b = Ok y \<Longrightarrow> P) \<Longrightarrow> P"
  by (cases x) auto

lemmas Ok_elims = bindR_OkE if_Err_OkE case_prod_OkE

subsection \<open>Slices\<close>

definition index :: "'a list \<Rightarrow> nat \<Rightarrow> ('e, 'a) res" where
  "index xs i = (if i < length xs then Ok (xs ! i) else Panic)"

definition set_index :: "'a list \<Rightarrow> nat \<Rightarrow> 'a \<Rightarrow> ('e, 'a list) res" where
  "set_index xs i v = (if i < length xs then Ok (xs[i := v]) else Panic)"

definition slice_from :: "'a list \<Rightarrow> nat \<Rightarrow> ('e, 'a list) res" where
  "slice_from xs i = (if i \<le> length xs then Ok (drop i xs) else Panic)"

definition slice :: "'a list \<Rightarrow> nat \<Rightarrow> nat \<Rightarrow> ('e, 'a list) res" where
  "slice xs i j = (if i \<le> j \<and> j \<le> length xs then Ok (take (j - i) (drop i xs)) else Panic)"

text \<open>\<open>copy(dst[off:], src)\<close>: the new \<open>dst\<close> and the number of elements copied.\<close>

definition copy_at :: "'a list \<Rightarrow> nat \<Rightarrow> 'a list \<Rightarrow> ('e, 'a list \<times> nat) res" where
  "copy_at dst off src =
     (if off \<le> length dst
      then let n = min (length dst - off) (length src)
           in Ok (take off dst @ take n src @ drop (off + n) dst, n)
      else Panic)"

text \<open>A call that writes into the sub-slice \<open>buf[i:j]\<close> of \<open>buf\<close>: the new \<open>buf\<close> and the result.\<close>

definition in_slice ::
    "'a list \<Rightarrow> nat \<Rightarrow> nat \<Rightarrow> ('a list \<Rightarrow> ('e, 'a list \<times> 'b) res) \<Rightarrow> ('e, 'a list \<times> 'b) res" where
  "in_slice buf i j f =
     bindR (slice buf i j) (\<lambda>sub. bindR (f sub) (\<lambda>(sub, y). Ok (take i buf @ sub @ drop j buf, y)))"

lemmas slice_defs = index_def set_index_def slice_from_def slice_def copy_at_def

lemma index_Ok [simp]: "i < length xs \<Longrightarrow> index xs i = Ok (xs ! i)"
  by (simp add: index_def)

lemma set_index_Ok [simp]: "i < length xs \<Longrightarrow> set_index xs i v = Ok (xs[i := v])"
  by (simp add: set_index_def)

lemma slice_from_Ok [simp]: "i \<le> length xs \<Longrightarrow> slice_from xs i = Ok (drop i xs)"
  by (simp add: slice_from_def)

lemma slice_Ok [simp]: "i \<le> j \<Longrightarrow> j \<le> length xs \<Longrightarrow> slice xs i j = Ok (take (j - i) (drop i xs))"
  by (simp add: slice_def)

lemma index_eq_Panic [simp]: "index xs i = Panic \<longleftrightarrow> \<not> i < length xs"
  by (simp add: index_def)

lemma slice_from_eq_Panic [simp]: "slice_from xs i = Panic \<longleftrightarrow> \<not> i \<le> length xs"
  by (simp add: slice_from_def)

lemma slice_eq_Panic [simp]: "slice xs i j = Panic \<longleftrightarrow> \<not> (i \<le> j \<and> j \<le> length xs)"
  by (simp add: slice_def)

subsection \<open>Writers into a pre-sized buffer\<close>

text \<open>
  The encoders first compute a size, take a buffer of that size, and then fill it through a
  running offset. \<open>stores w bs\<close> says that writer \<open>w\<close>, given room for \<open>bs\<close> at the offset, puts
  exactly \<open>bs\<close> there, leaves the rest of the buffer alone, does not panic, and returns the
  offset behind \<open>bs\<close>.
\<close>

type_synonym 'e writer = "byte list \<Rightarrow> nat \<Rightarrow> ('e, byte list \<times> nat) res"

definition stores :: "'e writer \<Rightarrow> byte list \<Rightarrow> bool" where
  "stores w bs \<longleftrightarrow>
     (\<forall>buf off. off + length bs \<le> length buf \<longrightarrow>
        w buf off = Ok (take off buf @ bs @ drop (off + length bs) buf, off + length bs))"

lemma storesI:
  assumes "\<And>buf off. off + length bs \<le> length buf \<Longrightarrow>
    w buf off = Ok (take off buf @ bs @ drop (off + length bs) buf, off + length bs)"
  shows "stores w bs"
  using assms by (simp add: stores_def)

lemma storesD:
  "stores w bs \<Longrightarrow> off + length bs \<le> length buf \<Longrightarrow>
    w buf off = Ok (take off buf @ bs @ drop (off + length bs) buf, off + length bs)"
  by (simp add: stores_def)

lemma stores_id [writes]: "stores (\<lambda>buf off. Ok (buf, off)) []"
  by (simp add: stores_def)

lemma stores_bind:
  assumes "stores w1 b1" and "stores w2 b2"
  shows "stores (\<lambda>buf off. bindR (w1 buf off) (\<lambda>(buf, off). w2 buf off)) (b1 @ b2)"
proof (rule storesI)
  fix buf :: "byte list" and off
  assume len: "off + length (b1 @ b2) \<le> length buf"
  let ?buf = "take off buf @ b1 @ drop (off + length b1) buf"
  have "w1 buf off = Ok (?buf, off + length b1)"
    using len by (intro storesD [OF assms(1)]) simp
  moreover have "w2 ?buf (off + length b1) =
      Ok (take off buf @ (b1 @ b2) @ drop (off + length (b1 @ b2)) buf, off + length (b1 @ b2))"
    using len by (simp add: storesD [OF assms(2)] add.commute add.left_commute)
  ultimately show "bindR (w1 buf off) (\<lambda>(buf, off). w2 buf off) =
      Ok (take off buf @ (b1 @ b2) @ drop (off + length (b1 @ b2)) buf, off + length (b1 @ b2))"
    by simp
qed

lemma stores_exact: "stores w bs \<Longrightarrow> length buf = length bs \<Longrightarrow> w buf 0 = Ok (bs, length bs)"
  using storesD [of w bs 0 buf] by simp

lemma stores_in_slice:
  assumes "\<And>sub. length sub = length bs \<Longrightarrow> f sub = Ok (bs, y)"
  shows "stores (\<lambda>buf off. bindR (in_slice buf off (off + length bs) f) (\<lambda>(buf, _). Ok (buf, off + length bs))) bs"
  by (rule storesI) (simp add: in_slice_def assms)

subsection \<open>Big-endian integers\<close>

text \<open>\<open>binary.BigEndian.Uint16\<close>, \<open>Uint32\<close>, \<open>PutUint16\<close> and \<open>PutUint32\<close> of the standard library.\<close>

definition Uint16 :: "byte list \<Rightarrow> ('e, u16) res" where
  "Uint16 b = bindR (index b 1) (\<lambda>b1. bindR (index b 0) (\<lambda>b0.
     Ok (ucast b1 OR push_bit 8 (ucast b0))))"

definition Uint32 :: "byte list \<Rightarrow> ('e, u32) res" where
  "Uint32 b = bindR (index b 3) (\<lambda>b3. bindR (index b 0) (\<lambda>b0. bindR (index b 1) (\<lambda>b1. bindR (index b 2) (\<lambda>b2.
     Ok (ucast b3 OR push_bit 8 (ucast b2) OR push_bit 16 (ucast b1) OR push_bit 24 (ucast b0))))))"

definition be16 :: "u16 \<Rightarrow> byte list" where
  "be16 v = [ucast (drop_bit 8 v), ucast v]"

definition be32 :: "u32 \<Rightarrow> byte list" where
  "be32 v = [ucast (drop_bit 24 v), ucast (drop_bit 16 v), ucast (drop_bit 8 v), ucast v]"

definition PutUint16 :: "byte list \<Rightarrow> nat \<Rightarrow> u16 \<Rightarrow> ('e, byte list) res" where
  "PutUint16 buf off v =
     (if off + 2 \<le> length buf then Ok (take off buf @ be16 v @ drop (off + 2) buf) else Panic)"

definition PutUint32 :: "byte list \<Rightarrow> nat \<Rightarrow> u32 \<Rightarrow> ('e, byte list) res" where
  "PutUint32 buf off v =
     (if off + 4 \<le> length buf then Ok (take off buf @ be32 v @ drop (off + 4) buf) else Panic)"

lemma length_be [simp]: "length (be16 v) = 2" "length (be32 w) = 4"
  by (simp_all add: be16_def be32_def)

lemma Uint16_be16 [simp]: "Uint16 (be16 v @ rest) = Ok v"
proof -
  have "ucast (ucast v :: byte) OR push_bit 8 (ucast (ucast (drop_bit 8 v) :: byte)) = v"
    by (rule bit_word_eqI) (auto simp: bit_simps)
  then show ?thesis
    by (simp add: Uint16_def be16_def)
qed

lemma Uint32_be32 [simp]: "Uint32 (be32 v @ rest) = Ok v"
proof -
  have "ucast (ucast v :: byte) OR push_bit 8 (ucast (ucast (drop_bit 8 v) :: byte))
      OR push_bit 16 (ucast (ucast (drop_bit 16 v) :: byte))
      OR push_bit 24 (ucast (ucast (drop_bit 24 v) :: byte)) = v"
    (is "?w = v")
  proof (rule bit_word_eqI)
    fix n assume "n < LENGTH(32)"
    then show "bit ?w n = bit v n"
      by (cases "n < 16"; cases "n < 24") (auto simp: bit_simps)
  qed
  then show ?thesis
    by (simp add: Uint32_def be32_def numeral_eq_Suc)
qed

lemma Uint16_eq_Panic [simp]: "Uint16 b = Panic \<longleftrightarrow> length b < 2"
  by (auto simp: Uint16_def bindR_eq_Panic)

lemma Uint32_eq_Panic [simp]: "Uint32 b = Panic \<longleftrightarrow> length b < 4"
  by (auto simp: Uint32_def bindR_eq_Panic)

lemma Uint_not_Err [simp]: "Uint16 b \<noteq> Err e" "Uint32 b \<noteq> Err e"
  by (auto simp: Uint16_def Uint32_def index_def)

lemma PutUint16_stores [writes]:
  "stores (\<lambda>buf off. bindR (PutUint16 buf off v) (\<lambda>buf. Ok (buf, off + 2))) (be16 v)"
  by (rule storesI) (simp add: PutUint16_def)

lemma PutUint32_stores [writes]:
  "stores (\<lambda>buf off. bindR (PutUint32 buf off v) (\<lambda>buf. Ok (buf, off + 4))) (be32 v)"
  by (rule storesI) (simp add: PutUint32_def)

lemma set_index_stores [writes]:
  "stores (\<lambda>buf off. bindR (set_index buf off b) (\<lambda>buf. Ok (buf, off + 1))) [b]"
  by (rule storesI) (simp add: upd_conv_take_nth_drop)

lemma copy_at_stores [writes]:
  "stores (\<lambda>buf off. bindR (copy_at buf off src) (\<lambda>(buf, n). Ok (buf, off + n))) src"
  by (rule storesI) (simp add: copy_at_def Let_def)

subsection \<open>Words as naturals\<close>

lemma and_127_nat: "n AND 127 = n mod (128::nat)"
  using take_bit_eq_mask [of 7 n] by (simp add: take_bit_eq_mod mask_eq_exp_minus_1)

lemma unat_and_127: "unat (b AND 0x7F :: byte) = unat b mod 128"
  "unat (v AND 0x7F :: u32) = unat v mod 128"
  by (simp_all add: unsigned_and_eq and_127_nat)

lemma high_bit_byte: "b AND 0x80 = 0 \<longleftrightarrow> unat b < 128" for b :: byte
proof -
  have "(b AND 0x80 = 0) = (unat b AND 128 = 0)"
    by (simp add: word_unat_eq_iff unsigned_and_eq)
  also have "\<dots> = (\<not> bit (unat b) 7)"
    using and_exp_eq_0_iff_not_bit[of "unat b" 7] by simp
  also have "\<dots> = (unat b < 128)"
  proof (cases "unat b < 128")
    case False
    then have "unat b div 128 = 1"
      using unsigned_less [of b] by (intro div_nat_eqI) simp_all
    then show ?thesis using False by (simp add: bit_iff_odd)
  qed (simp add: bit_iff_odd)
  finally show ?thesis .
qed

lemma or_high_bit: "m < 128 \<Longrightarrow> (of_nat m :: byte) OR 0x80 = of_nat (m + 128)"
proof -
  assume m: "m < 128"
  have "(of_nat m :: byte) AND 0x80 = 0"
    using m by (simp add: high_bit_byte unat_of_nat)
  then show ?thesis
    by (simp add: disjunctive_add_eq_or [symmetric])
qed

lemma ucast_mask7: "(ucast (v AND 0x7F :: u32) :: byte) = of_nat (unat v mod 128)"
  by (simp add: word_unat_eq_iff unsigned_ucast_eq unat_and_127 unat_of_nat take_bit_eq_mod)

lemma ucast_mask7': "(ucast (b AND 0x7F :: byte) :: u32) = of_nat (unat b mod 128)"
  by (simp add: word_unat_eq_iff unsigned_ucast_eq unat_and_127 unat_of_nat take_bit_eq_mod)

lemma unat_less: "unat (b :: byte) < 256" "unat (h :: u16) < 65536" "unat (w :: u32) < 4294967296"
proof -
  have "unat b < 2 ^ LENGTH(8)" "unat h < 2 ^ LENGTH(16)" "unat w < 2 ^ LENGTH(32)"
    by (rule unsigned_less)+
  then show "unat b < 256" "unat h < 65536" "unat w < 4294967296" by simp_all
qed

lemma Uint16_OkD:
  assumes "Uint16 b = Ok u"
  shows "2 \<le> length b" "take 2 b = be16 u"
proof -
  from assms obtain b0 b1 r where b: "b = b0 # b1 # r"
    by (cases b; cases "tl b") (auto simp: Uint16_def index_def)
  then have u: "u = ucast b1 OR push_bit 8 (ucast b0)"
    using assms by (simp add: Uint16_def)
  have "ucast (drop_bit 8 u) = b0" and "ucast u = b1"
    unfolding u by (rule bit_word_eqI; auto simp: bit_simps dest: bit_imp_le_length)+
  then show "2 \<le> length b" "take 2 b = be16 u"
    by (simp_all add: b be16_def)
qed

end
