(* ===== verification/Wire_Types.thy ===== *)
theory Wire_Types
  imports Prelude
begin

text \<open>
  The vocabulary of package \<open>wire\<close>: packet types, reason codes and property identifiers
  (\<open>wire/codec.go\<close>, \<open>wire/fields.go\<close>), and its error values. Packet types, reason codes and
  property identifiers are bytes in the source and are bytes here. Of an error the model keeps
  what the program can observe of it with \<open>errors.Is\<close> and \<open>errors.As\<close>: the sentinel values,
  the \<open>*PacketError\<close> with its packet type and reason code, and the wrapping by
  \<open>fmt.Errorf("%w")\<close>; the message texts are left out.
\<close>

subsection \<open>Packet types\<close>

type_synonym PacketType = byte
type_synonym ReasonCode = byte
abbreviation (input) CONNECT :: PacketType where "CONNECT \<equiv> 1"
abbreviation (input) CONNACK :: PacketType where "CONNACK \<equiv> 2"
abbreviation (input) PUBLISH :: PacketType where "PUBLISH \<equiv> 3"
abbreviation (input) PUBACK :: PacketType where "PUBACK \<equiv> 4"
abbreviation (input) PUBREC :: PacketType where "PUBREC \<equiv> 5"
abbreviation (input) PUBREL :: PacketType where "PUBREL \<equiv> 6"
abbreviation (input) PUBCOMP :: PacketType where "PUBCOMP \<equiv> 7"
abbreviation (input) SUBSCRIBE :: PacketType where "SUBSCRIBE \<equiv> 8"
abbreviation (input) SUBACK :: PacketType where "SUBACK \<equiv> 9"
abbreviation (input) UNSUBSCRIBE :: PacketType where "UNSUBSCRIBE \<equiv> 10"
abbreviation (input) UNSUBACK :: PacketType where "UNSUBACK \<equiv> 11"
abbreviation (input) PINGREQ :: PacketType where "PINGREQ \<equiv> 12"
abbreviation (input) PINGRESP :: PacketType where "PINGRESP \<equiv> 13"
abbreviation (input) DISCONNECT :: PacketType where "DISCONNECT \<equiv> 14"
abbreviation (input) AUTH :: PacketType where "AUTH \<equiv> 15"

definition PacketType_String :: "PacketType \<Rightarrow> string" where
  "PacketType_String t =     (if t = CONNECT then ''CONNECT''
      else if t = CONNACK then ''CONNACK''
      else if t = PUBLISH then ''PUBLISH''
      else if t = PUBACK then ''PUBACK''
      else if t = PUBREC then ''PUBREC''
      else if t = PUBREL then ''PUBREL''
      else if t = PUBCOMP then ''PUBCOMP''
      else if t = SUBSCRIBE then ''SUBSCRIBE''
      else if t = SUBACK then ''SUBACK''
      else if t = UNSUBSCRIBE then ''UNSUBSCRIBE''
      else if t = UNSUBACK then ''UNSUBACK''
      else if t = PINGREQ then ''PINGREQ''
      else if t = PINGRESP then ''PINGRESP''
      else if t = DISCONNECT then ''DISCONNECT''
      else if t = AUTH then ''AUTH''
      else ''INVALID'')"

subsection \<open>Reason codes\<close>

abbreviation (input) ReasonSuccess :: ReasonCode where "ReasonSuccess \<equiv> 0x00"
abbreviation (input) ReasonNormalDisconnection :: ReasonCode where "ReasonNormalDisconnection \<equiv> 0x00"
abbreviation (input) ReasonGrantedQoS0 :: ReasonCode where "ReasonGrantedQoS0 \<equiv> 0x00"
abbreviation (input) ReasonGrantedQoS1 :: ReasonCode where "ReasonGrantedQoS1 \<equiv> 0x01"
abbreviation (input) ReasonGrantedQoS2 :: ReasonCode where "ReasonGrantedQoS2 \<equiv> 0x02"
abbreviation (input) ReasonDisconnectWithWill :: ReasonCode where "ReasonDisconnectWithWill \<equiv> 0x04"
abbreviation (input) ReasonNoMatchingSubscribers :: ReasonCode where "ReasonNoMatchingSubscribers \<equiv> 0x10"
abbreviation (input) ReasonNoSubscriptionExisted :: ReasonCode where "ReasonNoSubscriptionExisted \<equiv> 0x11"
abbreviation (input) ReasonContinueAuthentication :: ReasonCode where "ReasonContinueAuthentication \<equiv> 0x18"
abbreviation (input) ReasonReAuthenticate :: ReasonCode where "ReasonReAuthenticate \<equiv> 0x19"
abbreviation (input) ReasonUnspecifiedError :: ReasonCode where "ReasonUnspecifiedError \<equiv> 0x80"
abbreviation (input) ReasonMalformedPacket :: ReasonCode where "ReasonMalformedPacket \<equiv> 0x81"
abbreviation (input) ReasonProtocolError :: ReasonCode where "ReasonProtocolError \<equiv> 0x82"
abbreviation (input) ReasonImplementationSpecificError :: ReasonCode where "ReasonImplementationSpecificError \<equiv> 0x83"
abbreviation (input) ReasonUnsupportedProtocolVersion :: ReasonCode where "ReasonUnsupportedProtocolVersion \<equiv> 0x84"
abbreviation (input) ReasonClientIdentifierNotValid :: ReasonCode where "ReasonClientIdentifierNotValid \<equiv> 0x85"
abbreviation (input) ReasonBadUsernameOrPassword :: ReasonCode where "ReasonBadUsernameOrPassword \<equiv> 0x86"
abbreviation (input) ReasonNotAuthorized :: ReasonCode where "ReasonNotAuthorized \<equiv> 0x87"
abbreviation (input) ReasonServerUnavailable :: ReasonCode where "ReasonServerUnavailable \<equiv> 0x88"
abbreviation (input) ReasonServerBusy :: ReasonCode where "ReasonServerBusy \<equiv> 0x89"
abbreviation (input) ReasonBanned :: ReasonCode where "ReasonBanned \<equiv> 0x8A"
abbreviation (input) ReasonServerShuttingDown :: ReasonCode where "ReasonServerShuttingDown \<equiv> 0x8B"
abbreviation (input) ReasonBadAuthenticationMethod :: ReasonCode where "ReasonBadAuthenticationMethod \<equiv> 0x8C"
abbreviation (input) ReasonKeepAliveTimeout :: ReasonCode where "ReasonKeepAliveTimeout \<equiv> 0x8D"
abbreviation (input) ReasonSessionTakenOver :: ReasonCode where "ReasonSessionTakenOver \<equiv> 0x8E"
abbreviation (input) ReasonTopicFilterInvalid :: ReasonCode where "ReasonTopicFilterInvalid \<equiv> 0x8F"
abbreviation (input) ReasonTopicNameInvalid :: ReasonCode where "ReasonTopicNameInvalid \<equiv> 0x90"
abbreviation (input) ReasonPacketIdentifierInUse :: ReasonCode where "ReasonPacketIdentifierInUse \<equiv> 0x91"
abbreviation (input) ReasonPacketIdentifierNotFound :: ReasonCode where "ReasonPacketIdentifierNotFound \<equiv> 0x92"
abbreviation (input) ReasonReceiveMaximumExceeded :: ReasonCode where "ReasonReceiveMaximumExceeded \<equiv> 0x93"
abbreviation (input) ReasonTopicAliasInvalid :: ReasonCode where "ReasonTopicAliasInvalid \<equiv> 0x94"
abbreviation (input) ReasonPacketTooLarge :: ReasonCode where "ReasonPacketTooLarge \<equiv> 0x95"
abbreviation (input) ReasonMessageRateTooHigh :: ReasonCode where "ReasonMessageRateTooHigh \<equiv> 0x96"
abbreviation (input) ReasonQuotaExceeded :: ReasonCode where "ReasonQuotaExceeded \<equiv> 0x97"
abbreviation (input) ReasonAdministrativeAction :: ReasonCode where "ReasonAdministrativeAction \<equiv> 0x98"
abbreviation (input) ReasonPayloadFormatInvalid :: ReasonCode where "ReasonPayloadFormatInvalid \<equiv> 0x99"
abbreviation (input) ReasonRetainNotSupported :: ReasonCode where "ReasonRetainNotSupported \<equiv> 0x9A"
abbreviation (input) ReasonQoSNotSupported :: ReasonCode where "ReasonQoSNotSupported \<equiv> 0x9B"
abbreviation (input) ReasonUseAnotherServer :: ReasonCode where "ReasonUseAnotherServer \<equiv> 0x9C"
abbreviation (input) ReasonServerMoved :: ReasonCode where "ReasonServerMoved \<equiv> 0x9D"
abbreviation (input) ReasonSharedSubscriptionsNotSupported :: ReasonCode where "ReasonSharedSubscriptionsNotSupported \<equiv> 0x9E"
abbreviation (input) ReasonConnectionRateExceeded :: ReasonCode where "ReasonConnectionRateExceeded \<equiv> 0x9F"
abbreviation (input) ReasonMaximumConnectTime :: ReasonCode where "ReasonMaximumConnectTime \<equiv> 0xA0"
abbreviation (input) ReasonSubscriptionIDsNotSupported :: ReasonCode where "ReasonSubscriptionIDsNotSupported \<equiv> 0xA1"
abbreviation (input) ReasonWildcardSubscriptionsNotSupported :: ReasonCode where "ReasonWildcardSubscriptionsNotSupported \<equiv> 0xA2"

definition IsError :: "ReasonCode \<Rightarrow> bool" where
  "IsError r \<longleftrightarrow> r \<ge> 0x80"

subsection \<open>Property identifiers\<close>

abbreviation (input) PropPayloadFormat :: byte where "PropPayloadFormat \<equiv> 0x01"
abbreviation (input) PropMessageExpiryInterval :: byte where "PropMessageExpiryInterval \<equiv> 0x02"
abbreviation (input) PropContentType :: byte where "PropContentType \<equiv> 0x03"
abbreviation (input) PropResponseTopic :: byte where "PropResponseTopic \<equiv> 0x08"
abbreviation (input) PropCorrelationData :: byte where "PropCorrelationData \<equiv> 0x09"
abbreviation (input) PropSubscriptionIdentifier :: byte where "PropSubscriptionIdentifier \<equiv> 0x0B"
abbreviation (input) PropSessionExpiryInterval :: byte where "PropSessionExpiryInterval \<equiv> 0x11"
abbreviation (input) PropAssignedClientID :: byte where "PropAssignedClientID \<equiv> 0x12"
abbreviation (input) PropServerKeepAlive :: byte where "PropServerKeepAlive \<equiv> 0x13"
abbreviation (input) PropAuthMethod :: byte where "PropAuthMethod \<equiv> 0x15"
abbreviation (input) PropAuthData :: byte where "PropAuthData \<equiv> 0x16"
abbreviation (input) PropRequestProblemInfo :: byte where "PropRequestProblemInfo \<equiv> 0x17"
abbreviation (input) PropWillDelayInterval :: byte where "PropWillDelayInterval \<equiv> 0x18"
abbreviation (input) PropRequestResponseInfo :: byte where "PropRequestResponseInfo \<equiv> 0x19"
abbreviation (input) PropResponseInformation :: byte where "PropResponseInformation \<equiv> 0x1A"
abbreviation (input) PropServerReference :: byte where "PropServerReference \<equiv> 0x1C"
abbreviation (input) PropReasonString :: byte where "PropReasonString \<equiv> 0x1F"
abbreviation (input) PropReceiveMaximum :: byte where "PropReceiveMaximum \<equiv> 0x21"
abbreviation (input) PropTopicAliasMaximum :: byte where "PropTopicAliasMaximum \<equiv> 0x22"
abbreviation (input) PropTopicAlias :: byte where "PropTopicAlias \<equiv> 0x23"
abbreviation (input) PropMaximumQoS :: byte where "PropMaximumQoS \<equiv> 0x24"
abbreviation (input) PropRetainAvailable :: byte where "PropRetainAvailable \<equiv> 0x25"
abbreviation (input) PropUserProperty :: byte where "PropUserProperty \<equiv> 0x26"
abbreviation (input) PropMaximumPacketSize :: byte where "PropMaximumPacketSize \<equiv> 0x27"
abbreviation (input) PropWildcardSubAvailable :: byte where "PropWildcardSubAvailable \<equiv> 0x28"
abbreviation (input) PropSubscriptionIDAvailable :: byte where "PropSubscriptionIDAvailable \<equiv> 0x29"
abbreviation (input) PropSharedSubAvailable :: byte where "PropSharedSubAvailable \<equiv> 0x2A"

subsection \<open>Errors\<close>

record PacketError =
  Packet :: PacketType
  Reason :: ReasonCode

datatype goerr =
    EOF | ErrUnexpectedEOF
  | ErrTruncated | ErrVarintTooLarge | ErrVarintMalformed | ErrInvalidProperties
  | ErrInvalidPacket | ErrUnsupportedPacket | ErrPacketTooLarge | ErrInvalidProtocol | errTrailing
  | ErrInvalidTopic | ErrStringTooLong | ErrInvalidField | ErrInvalidQoS | ErrPacketIDRequired
  | ErrEmptyFilterList
  | PacketErr PacketError
  | Errorf "goerr list" \<comment> \<open>\<open>fmt.Errorf\<close> with one \<open>%w\<close> per element\<close>

type_synonym 'a gores = "(goerr, 'a) res"

text \<open>\<open>errors.Is(err, target)\<close> for a sentinel \<open>target\<close>; a \<open>*PacketError\<close> unwraps to
  \<open>ErrInvalidPacket\<close>.\<close>

fun errors_is :: "goerr \<Rightarrow> goerr \<Rightarrow> bool" where
  "errors_is (Errorf es) t = list_ex (\<lambda>e. errors_is e t) es"
| "errors_is (PacketErr p) t = (t = PacketErr p \<or> t = ErrInvalidPacket)"
| "errors_is e t = (e = t)"

text \<open>\<open>errors.As(err, &pe)\<close> for \<open>pe *PacketError\<close>.\<close>

fun as_PacketError :: "goerr \<Rightarrow> PacketError option" where
  "as_PacketError (PacketErr p) = Some p"
| "as_PacketError (Errorf es) =
     (case List.find (\<lambda>e. e \<noteq> None) (map as_PacketError es) of Some r \<Rightarrow> r | None \<Rightarrow> None)"
| "as_PacketError _ = None"

definition malformed :: "PacketType \<Rightarrow> PacketError" where
  "malformed t = \<lparr>Packet = t, Reason = ReasonMalformedPacket\<rparr>"

definition protocolError :: "PacketType \<Rightarrow> PacketError" where
  "protocolError t = \<lparr>Packet = t, Reason = ReasonProtocolError\<rparr>"

definition asPacketError :: "PacketType \<Rightarrow> goerr \<Rightarrow> goerr" where
  "asPacketError t err =
     (if as_PacketError err \<noteq> None then err
      else if errors_is err ErrInvalidPacket \<or> errors_is err ErrInvalidProperties
           \<or> errors_is err ErrTruncated \<or> errors_is err ErrVarintMalformed
           \<or> errors_is err ErrUnsupportedPacket
      then PacketErr (malformed t)
      else err)"

end
