(* ===== verification/Varint.thy ===== *)
theory Varint
  imports Wire_Types
begin

text \<open>
  Variable Byte Integers (MQTT 5, section 1.5.5), \<open>EncodeVarint\<close>, \<open>VarintSize\<close>,
  \<open>DecodeVarint\<close> and \<open>ReadVarint\<close> of \<open>wire/fields.go\<close>, over the 32-bit arithmetic of the
  source. \<open>vbi n\<close> is the specification: the base-128 digits of \<open>n\<close>, least significant first,
  every one but the last with its high bit set.
\<close>

definition MaxVarintValue :: u32 where
  "MaxVarintValue = 268435455"

definition maxVarintBytes :: nat where
  "maxVarintBytes = 4"

subsection \<open>Operations\<close>

text \<open>The loop of \<open>EncodeVarint\<close>: \<open>i\<close> is the index of the next byte to write.\<close>

function EncodeVarint_loop :: "byte list \<Rightarrow> nat \<Rightarrow> u32 \<Rightarrow> (byte list \<times> nat) gores" where
  "EncodeVarint_loop buf i v =
     (let b = ucast (v AND 0x7F);
          v' = drop_bit 7 v;
          b' = (if v' > 0 then b OR 0x80 else b)
      in bindR (set_index buf i b') (\<lambda>buf.
           if v' = 0 then Ok (buf, i + 1) else EncodeVarint_loop buf (i + 1) v'))"
  by pat_completeness auto
termination
proof (relation "measure (\<lambda>(buf, i, v). unat v)", goal_cases)
  case 1
  show ?case by simp
next
  case (2 buf i v b v' b' buf')
  then have "unat v' = unat v div 128"
    by (simp add: drop_bit_eq_div unat_div)
  moreover have "unat v' \<noteq> 0"
    using 2 by (auto simp: unat_eq_0)
  ultimately have "unat v' < unat v"
    by (metis div_less_dividend gr0I div_0 one_less_numeral_iff semiring_norm(76))
  then show ?case by simp
qed

definition EncodeVarint :: "byte list \<Rightarrow> u32 \<Rightarrow> (byte list \<times> nat) gores" where
  "EncodeVarint buf v =
     (if v > MaxVarintValue then Err ErrVarintTooLarge else EncodeVarint_loop buf 0 v)"

definition VarintSize :: "u32 \<Rightarrow> nat" where
  "VarintSize v =
     (if v < 128 then 1
      else if v < 16384 then 2
      else if v < 2097152 then 3
      else if v \<le> MaxVarintValue then 4
      else 0)"

function DecodeVarint_loop :: "byte list \<Rightarrow> nat \<Rightarrow> u32 \<Rightarrow> u32 \<Rightarrow> (u32 \<times> nat) gores" where
  "DecodeVarint_loop buf n val multiplier =
     (if n < maxVarintBytes then
        if n \<ge> length buf then Err ErrVarintMalformed
        else bindR (index buf n) (\<lambda>b.
          let val' = val + ucast (b AND 0x7F) * multiplier
          in if b AND 0x80 = 0 then Ok (val', n + 1)
             else DecodeVarint_loop buf (n + 1) val' (multiplier * 128))
      else Err ErrVarintMalformed)"
  by pat_completeness auto
termination
  by (relation "measure (\<lambda>(buf, n, val, multiplier). maxVarintBytes - n)") auto

definition DecodeVarint :: "byte list \<Rightarrow> (u32 \<times> nat) gores" where
  "DecodeVarint buf = DecodeVarint_loop buf 0 0 1"

text \<open>\<open>ReadVarint\<close> takes its bytes from the stream \<open>r\<close>, here the bytes that are still to come
  before the stream ends; it returns the rest of the stream with the value.\<close>

function ReadVarint_loop :: "byte list \<Rightarrow> nat \<Rightarrow> u32 \<Rightarrow> u32 \<Rightarrow> (u32 \<times> nat \<times> byte list) gores" where
  "ReadVarint_loop r n val multiplier =
     (if n < maxVarintBytes then
        (case r of
           [] \<Rightarrow> Err (if n > 0 then ErrUnexpectedEOF else EOF)
         | b # r' \<Rightarrow>
             (let val' = val + ucast (b AND 0x7F) * multiplier
              in if b AND 0x80 = 0 then Ok (val', n + 1, r')
                 else ReadVarint_loop r' (n + 1) val' (multiplier * 128)))
      else Err ErrVarintMalformed)"
  by pat_completeness auto
termination
  by (relation "measure (\<lambda>(r, n, val, multiplier). maxVarintBytes - n)") auto

definition ReadVarint :: "byte list \<Rightarrow> (u32 \<times> nat \<times> byte list) gores" where
  "ReadVarint r = ReadVarint_loop r 0 0 1"

declare EncodeVarint_loop.simps [simp del] DecodeVarint_loop.simps [simp del]
  ReadVarint_loop.simps [simp del]

subsection \<open>Specification\<close>

fun vbi :: "nat \<Rightarrow> byte list" where
  "vbi n = (if n < 128 then [of_nat n] else of_nat (n mod 128 + 128) # vbi (n div 128))"

declare vbi.simps [simp del]

text \<open>The reference decoder, on naturals and without a length limit: value and bytes used.\<close>

fun vbi_dec :: "byte list \<Rightarrow> (nat \<times> nat) option" where
  "vbi_dec [] = None"
| "vbi_dec (b # r) =
     (if unat b < 128 then Some (unat b, 1)
      else map_option (\<lambda>(m, k). (unat b mod 128 + 128 * m, k + 1)) (vbi_dec r))"

subsection \<open>Lemmas\<close>

lemma vbi_ne [simp]: "vbi n \<noteq> []"
  by (subst vbi.simps) simp

lemma length_vbi:
  "length (vbi n) = (if n < 128 then 1 else if n < 16384 then 2 else if n < 2097152 then 3
    else if n < 268435456 then 4 else 4 + length (vbi (n div 268435456)))"
proof -
  have step: "length (vbi m) = (if m < 128 then 1 else Suc (length (vbi (m div 128))))" for m
    by (subst vbi.simps) simp
  show ?thesis
    by (simp add: step [of n] step [of "n div 128"] step [of "n div 16384"] step [of "n div 2097152"]
        div_mult2_eq [symmetric] div_less_iff_less_mult)
qed

lemma VarintSize_vbi:
  "v \<le> MaxVarintValue \<Longrightarrow> VarintSize v = length (vbi (unat v))"
  by (auto simp: VarintSize_def length_vbi MaxVarintValue_def word_less_nat_alt word_le_nat_alt)

lemma length_vbi_le_4: "n < 268435456 \<Longrightarrow> length (vbi n) \<le> 4"
  by (simp add: length_vbi)

lemma EncodeVarint_loop_vbi:
  "i + length (vbi (unat v)) \<le> length buf \<Longrightarrow>
     EncodeVarint_loop buf i v =
       Ok (take i buf @ vbi (unat v) @ drop (i + length (vbi (unat v))) buf, i + length (vbi (unat v)))"
proof (induction buf i v rule: EncodeVarint_loop.induct)
  case (1 buf i v)
  let ?v' = "drop_bit 7 v"
  have v': "unat ?v' = unat v div 128"
    by (simp add: drop_bit_eq_div unat_div)
  have i: "i < length buf"
    using "1.prems" length_greater_0_conv [of "vbi (unat v)"] by (simp del: length_greater_0_conv)
  show ?case
  proof (cases "?v' = 0")
    case True
    then have small: "unat v < 128"
      using v' by simp
    then have "vbi (unat v) = [of_nat (unat v)]"
      by (subst vbi.simps) simp
    then show ?thesis
      using True i small
      by (subst EncodeVarint_loop.simps) (simp add: Let_def ucast_mask7 upd_conv_take_nth_drop)
  next
    case False
    then have big: "\<not> unat v < 128"
      using v' by (metis div_eq_0_iff unat_eq_0 zero_neq_numeral)
    let ?b = "of_nat (unat v mod 128 + 128) :: byte"
    have vbi: "vbi (unat v) = ?b # vbi (unat ?v')"
      using big v' by (subst vbi.simps) simp
    have b: "ucast (v AND 0x7F) OR 0x80 = ?b"
      by (simp add: ucast_mask7 or_high_bit)
    have IH: "EncodeVarint_loop (buf[i := ?b]) (i + 1) ?v' =
        Ok (take (i + 1) (buf[i := ?b]) @ vbi (unat ?v') @
              drop (i + 1 + length (vbi (unat ?v'))) (buf[i := ?b]),
            i + 1 + length (vbi (unat ?v')))"
      using "1.prems" False i vbi b by (intro "1.IH") (auto simp: word_greater_zero_iff)
    show ?thesis
      using False i IH b vbi
      by (subst EncodeVarint_loop.simps)
        (simp add: Let_def word_greater_zero_iff take_Suc_conv_app_nth)
  qed
qed

lemma EncodeVarint_stores:
  assumes "v \<le> MaxVarintValue"
  shows "length (vbi (unat v)) \<le> length buf \<Longrightarrow>
    EncodeVarint buf v = Ok (vbi (unat v) @ drop (length (vbi (unat v))) buf, length (vbi (unat v)))"
  using assms by (simp add: EncodeVarint_def EncodeVarint_loop_vbi)

lemma of_nat_mod_div: "of_nat (n mod 128) + of_nat (n div 128) * 128 = (of_nat n :: 'a::len word)"
proof -
  have "of_nat (n mod 128 + n div 128 * 128) = (of_nat n :: 'a word)"
    by simp
  then show ?thesis by (simp only: of_nat_add of_nat_mult of_nat_numeral)
qed

lemma DecodeVarint_loop_vbi:
  "n + length (vbi m) \<le> 4 \<Longrightarrow> n = length pre \<Longrightarrow>
    DecodeVarint_loop (pre @ vbi m @ rest) n val mult = Ok (val + of_nat m * mult, n + length (vbi m))"
proof (induction m arbitrary: pre n val mult rule: vbi.induct)
  case (1 m)
  show ?case
  proof (cases "m < 128")
    case True
    then have vbi: "vbi m = [of_nat m]" by (subst vbi.simps) simp
    show ?thesis using "1.prems" True
      by (subst DecodeVarint_loop.simps)
        (simp add: vbi maxVarintBytes_def Let_def nth_append high_bit_byte ucast_mask7' unat_of_nat)
  next
    case False
    let ?b = "of_nat (m mod 128 + 128) :: byte"
    have vbi: "vbi m = ?b # vbi (m div 128)" using False by (subst vbi.simps) simp
    have ub: "unat ?b = m mod 128 + 128"
    proof -
      have "m mod 128 + 128 < 256" by simp
      then show ?thesis by (simp add: unat_of_nat del: of_nat_add)
    qed
    have IH: "DecodeVarint_loop ((pre @ [?b]) @ vbi (m div 128) @ rest) (n + 1)
        (val + of_nat (m mod 128) * mult) (mult * 128) =
        Ok (val + of_nat (m mod 128) * mult + of_nat (m div 128) * (mult * 128), n + 1 + length (vbi (m div 128)))"
      using "1.prems" False vbi by (intro "1.IH") auto
    have "val + of_nat (m mod 128) * mult + of_nat (m div 128) * (mult * 128) = val + of_nat m * mult"
      by (simp only: of_nat_mod_div [of m, symmetric] algebra_simps)
    then show ?thesis using "1.prems" False IH
      by (subst DecodeVarint_loop.simps)
        (simp add: vbi maxVarintBytes_def Let_def nth_append high_bit_byte ucast_mask7' ub del: of_nat_add)
  qed
qed

lemma DecodeVarint_vbi:
  "n < 268435456 \<Longrightarrow> DecodeVarint (vbi n @ rest) = Ok (of_nat n, length (vbi n))"
  using DecodeVarint_loop_vbi [of 0 n "[]"] by (simp add: DecodeVarint_def length_vbi_le_4)

lemma DecodeVarint_loop_dec:
  "n \<le> 4 \<Longrightarrow> n \<le> length buf \<Longrightarrow>
    DecodeVarint_loop buf n val mult =
      (case vbi_dec (take (4 - n) (drop n buf)) of
         None \<Rightarrow> Err ErrVarintMalformed
       | Some (m, k) \<Rightarrow> Ok (val + of_nat m * mult, n + k))"
proof (induction buf n val mult rule: DecodeVarint_loop.induct)
  case (1 buf n val mult)
  show ?case
  proof (cases "n < 4 \<and> n < length buf")
    case False
    then show ?thesis using "1.prems"
      by (subst DecodeVarint_loop.simps) (auto simp: maxVarintBytes_def)
  next
    case True
    let ?b = "buf ! n"
    have tk: "take (4 - n) (drop n buf) = ?b # take (4 - Suc n) (drop (Suc n) buf)"
      using True by (simp add: Cons_nth_drop_Suc [symmetric] take_Cons' del: Cons_nth_drop_Suc)
    have IH: "\<not> unat ?b < 128 \<Longrightarrow>
        DecodeVarint_loop buf (n + 1) (val + of_nat (unat ?b mod 128) * mult) (mult * 128) =
        (case vbi_dec (take (4 - (n + 1)) (drop (n + 1) buf)) of
           None \<Rightarrow> Err ErrVarintMalformed
         | Some (m, k) \<Rightarrow> Ok (val + of_nat (unat ?b mod 128) * mult + of_nat m * (mult * 128), n + 1 + k))"
      using True "1.IH" [of ?b "val + of_nat (unat ?b mod 128) * mult"]
      by (simp add: maxVarintBytes_def high_bit_byte ucast_mask7')
    show ?thesis
      using True IH
      by (subst DecodeVarint_loop.simps)
        (auto simp: maxVarintBytes_def Let_def high_bit_byte ucast_mask7' tk algebra_simps split: option.splits)
  qed
qed

lemma DecodeVarint_dec:
  "DecodeVarint buf =
     (case vbi_dec (take 4 buf) of None \<Rightarrow> Err ErrVarintMalformed | Some (m, k) \<Rightarrow> Ok (of_nat m, k))"
  by (simp add: DecodeVarint_def DecodeVarint_loop_dec split: option.splits)

lemma ReadVarint_loop_dec:
  "n \<le> 4 \<Longrightarrow>
    ReadVarint_loop r n val mult =
      (case vbi_dec (take (4 - n) r) of
         None \<Rightarrow> Err (if n + length r < 4 then if n + length r = 0 then EOF else ErrUnexpectedEOF else ErrVarintMalformed)
       | Some (m, k) \<Rightarrow> Ok (val + of_nat m * mult, n + k, drop k r))"
proof (induction r n val mult rule: ReadVarint_loop.induct)
  case (1 r n val mult)
  show ?case
  proof (cases "n < 4")
    case False
    then show ?thesis using "1.prems"
      by (subst ReadVarint_loop.simps) (auto simp: maxVarintBytes_def)
  next
    case True
    show ?thesis
    proof (cases r)
      case Nil
      then show ?thesis using True by (subst ReadVarint_loop.simps) (auto simp: maxVarintBytes_def)
    next
      case (Cons b r')
      have tk: "take (4 - n) (b # r') = b # take (3 - n) r'"
        using True by (simp add: take_Cons')
      have IH: "\<not> unat b < 128 \<Longrightarrow>
          ReadVarint_loop r' (n + 1) (val + of_nat (unat b mod 128) * mult) (mult * 128) =
          (case vbi_dec (take (4 - (n + 1)) r') of
             None \<Rightarrow> Err (if n + 1 + length r' < 4 then if n + 1 + length r' = 0 then EOF else ErrUnexpectedEOF else ErrVarintMalformed)
           | Some (m, k) \<Rightarrow> Ok (val + of_nat (unat b mod 128) * mult + of_nat m * (mult * 128), n + 1 + k, drop k r'))"
        using True Cons "1.IH" [of b r' "val + of_nat (unat b mod 128) * mult"]
        by (simp add: maxVarintBytes_def high_bit_byte ucast_mask7')
      show ?thesis
        using True Cons IH
        by (subst ReadVarint_loop.simps)
          (auto simp: maxVarintBytes_def Let_def high_bit_byte ucast_mask7' tk algebra_simps
            simp del: take_Suc_Cons split: option.splits)
    qed
  qed
qed

lemma ReadVarint_dec:
  "ReadVarint r =
     (case vbi_dec (take 4 r) of
        None \<Rightarrow> Err (if r = [] then EOF else if length r < 4 then ErrUnexpectedEOF else ErrVarintMalformed)
      | Some (m, k) \<Rightarrow> Ok (of_nat m, k, drop k r))"
  by (auto simp: ReadVarint_def ReadVarint_loop_dec split: option.splits)

lemma vbi_Cons: "x < 128 \<Longrightarrow> 0 < m \<Longrightarrow> vbi (x + 128 * m) = of_nat (x + 128) # vbi m"
  by (subst vbi.simps) simp

lemma vbi_dec_Some:
  "vbi_dec b = Some (m, k) \<Longrightarrow>
     0 < k \<and> k \<le> length b \<and> m < 128 ^ k \<and> length (vbi m) \<le> k \<and> (length (vbi m) = k \<longrightarrow> take k b = vbi m)"
proof (induction b arbitrary: m k)
  case (Cons b r)
  show ?case
  proof (cases "unat b < 128")
    case True
    then show ?thesis using Cons.prems
      by (auto simp: vbi.simps [of "unat b"])
  next
    case False
    then obtain m' k' where dec: "vbi_dec r = Some (m', k')" and m: "m = unat b mod 128 + 128 * m'" and k: "k = k' + 1"
      using Cons.prems by auto
    note IH = Cons.IH [OF dec]
    have b: "b = of_nat (unat b mod 128 + 128)"
    proof -
      have "unat b mod 128 + 128 = unat b"
        using False unat_less(1) [of b] by (simp add: le_mod_geq)
      then show ?thesis by (simp only: of_nat_unat ucast_id)
    qed
    show ?thesis
    proof (cases "m' = 0")
      case True
      then have m128: "m < 128"
        using m by simp
      then have "length (vbi m) = 1"
        by (simp add: vbi.simps [of m])
      moreover have "m < 128 ^ k"
        using m128 k by (simp add: less_le_trans [OF m128])
      ultimately show ?thesis
        using IH k by auto
    next
      case m': False
      then have "vbi m = b # vbi m'"
        using m b vbi_Cons [of "unat b mod 128" m'] by simp
      then show ?thesis using IH k m by auto
    qed
  qed
qed simp

lemma vbi_dec_vbi [simp]: "vbi_dec (vbi n @ r) = Some (n, length (vbi n))"
proof (induction n rule: vbi.induct)
  case (1 n)
  have ub: "unat (of_nat (n mod 128 + 128) :: byte) = n mod 128 + 128"
  proof -
    have "n mod 128 + 128 < 256" by simp
    then show ?thesis by (simp add: unat_of_nat del: of_nat_add)
  qed
  show ?case
  proof (cases "n < 128")
    case True
    then show ?thesis by (simp add: vbi.simps [of n] unat_of_nat)
  next
    case False
    then have "vbi n = of_nat (n mod 128 + 128) # vbi (n div 128)"
      by (subst vbi.simps) simp
    then show ?thesis using 1 [OF False] ub by (simp del: of_nat_add)
  qed
qed

lemma DecodeVarint_OkD:
  assumes "DecodeVarint buf = Ok (v, n)"
  shows "0 < n" "n \<le> 4" "n \<le> length buf" "v \<le> MaxVarintValue" "VarintSize v \<le> n"
    and "VarintSize v = n \<Longrightarrow> take n buf = vbi (unat v)"
proof -
  from assms obtain m where dec: "vbi_dec (take 4 buf) = Some (m, n)" and v: "v = of_nat m"
    by (auto simp: DecodeVarint_dec split: option.splits)
  note D = vbi_dec_Some [OF dec]
  show "0 < n" "n \<le> 4" "n \<le> length buf"
    using D by auto
  have "m < 128 ^ 4"
    using D \<open>n \<le> 4\<close> by (elim conjE less_le_trans) (simp add: power_increasing del: power_numeral)
  then have m: "m < 268435456" by simp
  then have um: "unat v = m"
    using v by (simp add: unat_of_nat)
  then show le: "v \<le> MaxVarintValue"
    using m by (simp add: word_le_nat_alt MaxVarintValue_def)
  show "VarintSize v \<le> n"
    using D le um by (simp add: VarintSize_vbi)
  show "take n buf = vbi (unat v)" if "VarintSize v = n"
    using that D le um \<open>n \<le> 4\<close> by (auto simp: VarintSize_vbi min_def)
qed

lemma DecodeVarint_not_Panic [simp]: "DecodeVarint buf \<noteq> Panic"
  by (auto simp: DecodeVarint_dec split: option.splits)


lemma ReadVarint_DecodeVarint:
  "ReadVarint r =
     (case DecodeVarint r of
        Ok (v, n) \<Rightarrow> Ok (v, n, drop n r)
      | Err _ \<Rightarrow> Err (if r = [] then EOF else if length r < 4 then ErrUnexpectedEOF else ErrVarintMalformed)
      | Panic \<Rightarrow> Panic)"
  by (auto simp: ReadVarint_dec DecodeVarint_dec split: option.splits)

end
