(* ===== verification/Buf_Pool.thy ===== *)
theory Buf_Pool
  imports Wire_Types
begin

text \<open>
  Pooled frame buffers (\<open>bufClasses\<close>, \<open>bufClass\<close>, \<open>acquireBuf\<close>, \<open>releaseBuf\<close>, \<open>pooled\<close> of
  \<open>wire/codec.go\<close>). A buffer is a backing array, whose length is the capacity, and a length.
  \<open>sync.Pool.Get\<close> may return any buffer put before or a new one, with whatever bytes an earlier
  use left in it; \<open>pool i\<close> stands for the backing array it returns for class \<open>i\<close>, and
  \<open>pool_ok\<close> is what \<open>New\<close> and \<open>releaseBuf\<close> guarantee about it.
\<close>

type_synonym bufpool = "nat \<Rightarrow> byte list"

definition bufClasses :: "nat list" where
  "bufClasses = [256, 1024, 4096, 16384, 65536]"

fun bufClass_from :: "nat \<Rightarrow> nat list \<Rightarrow> nat \<Rightarrow> nat option" where
  "bufClass_from i [] n = None"
| "bufClass_from i (sz # sizes) n = (if n \<le> sz then Some i else bufClass_from (i + 1) sizes n)"

text \<open>The source's \<open>-1\<close> is \<^term>\<open>None\<close>.\<close>

definition bufClass :: "nat \<Rightarrow> nat option" where
  "bufClass n = bufClass_from 0 bufClasses n"

definition acquireBuf :: "bufpool \<Rightarrow> nat \<Rightarrow> ('e, byte list) res" where
  "acquireBuf pool n =
     (case bufClass n of
        None \<Rightarrow> Ok (replicate n 0)
      | Some i \<Rightarrow> if n \<le> length (pool i) then Ok (take n (pool i)) else Panic)"

definition pooled :: "byte list \<Rightarrow> bool" where
  "pooled arr = (case bufClass (length arr) of None \<Rightarrow> False | Some i \<Rightarrow> bufClasses ! i = length arr)"

text \<open>The class whose pool \<open>releaseBuf\<close> puts the buffer with backing array \<open>arr\<close> into.\<close>

definition releaseBuf :: "byte list \<Rightarrow> nat option" where
  "releaseBuf arr = (if \<not> pooled arr then None else bufClass (length arr))"

definition pool_ok :: "bufpool \<Rightarrow> bool" where
  "pool_ok pool \<longleftrightarrow> (\<forall>i < length bufClasses. length (pool i) = bufClasses ! i)"

text \<open>A pool whose buffers were all made by \<open>New\<close>.\<close>

definition new_pool :: bufpool where
  "new_pool i = replicate (bufClasses ! i) 0"

subsection \<open>Lemmas\<close>

lemma bufClass_eq:
  "bufClass n = (if n \<le> 256 then Some 0 else if n \<le> 1024 then Some 1 else if n \<le> 4096 then Some 2
     else if n \<le> 16384 then Some 3 else if n \<le> 65536 then Some 4 else None)"
  by (simp add: bufClass_def bufClasses_def)

lemma bufClass_SomeD:
  "bufClass n = Some i \<Longrightarrow> i < length bufClasses \<and> n \<le> bufClasses ! i"
  by (auto simp: bufClass_eq bufClasses_def split: if_splits)

lemma acquireBuf_Ok:
  assumes "pool_ok pool"
  shows "\<exists>buf. acquireBuf pool n = Ok buf \<and> length buf = n"
proof (cases "bufClass n")
  case None
  then show ?thesis by (simp add: acquireBuf_def)
next
  case (Some i)
  then have "i < length bufClasses \<and> n \<le> bufClasses ! i" by (rule bufClass_SomeD)
  then show ?thesis using Some assms by (simp add: acquireBuf_def pool_ok_def)
qed

lemma releaseBuf_class: "releaseBuf arr = Some i \<Longrightarrow> i < length bufClasses \<and> length arr = bufClasses ! i"
  by (auto simp: releaseBuf_def pooled_def dest: bufClass_SomeD split: if_splits option.splits)

lemma pool_ok_new_pool: "pool_ok new_pool"
  by (simp add: pool_ok_def new_pool_def)

lemma pool_ok_releaseBuf: "pool_ok pool \<Longrightarrow> releaseBuf arr = Some i \<Longrightarrow> pool_ok (pool(i := arr))"
  by (auto simp: pool_ok_def dest: releaseBuf_class)

lemma bind_acquireBuf:
  fixes f :: "byte list \<Rightarrow> ('e, 'a) res"
  assumes "pool_ok pool" and "\<And>buf. length buf = n \<Longrightarrow> f buf = Ok y"
  shows "bindR (acquireBuf pool n) f = Ok y"
proof -
  obtain buf where "acquireBuf pool n = (Ok buf :: ('e, byte list) res)" and "length buf = n"
    using acquireBuf_Ok [OF assms(1)] by blast
  then show ?thesis using assms(2) by simp
qed

end
