(* ===== verification/Wire_Fields.thy ===== *)
theory Wire_Fields
  imports Varint Buf_Pool
begin

text \<open>
  Field readers and writers of \<open>wire/fields.go\<close>: length-prefixed strings and binary data, the
  property section with its length prefix, and one writer per property type. The writers fill
  a buffer through an offset as the source does; \<open>stores\<close> says which bytes each leaves there.
\<close>

record UserProperty =
  Key :: gostring
  Value :: gostring

subsection \<open>Readers\<close>

definition bytesToString :: "byte list \<Rightarrow> gostring" where
  "bytesToString b = (if length b = 0 then [] else b)"

definition readUTF8String :: "byte list \<Rightarrow> (gostring \<times> nat) gores" where
  "readUTF8String buf =
     (if length buf < 2 then Err ErrTruncated
      else bindR (Uint16 buf) (\<lambda>u. let n = unat u in
        if length buf < 2 + n then Err ErrTruncated
        else bindR (slice buf 2 (2 + n)) (\<lambda>s. Ok (bytesToString s, 2 + n))))"

definition readBinaryData :: "byte list \<Rightarrow> (byte list \<times> nat) gores" where
  "readBinaryData buf =
     (if length buf < 2 then Err ErrTruncated
      else bindR (Uint16 buf) (\<lambda>u. let n = unat u in
        if length buf < 2 + n then Err ErrTruncated
        else bindR (slice buf 2 (2 + n)) (\<lambda>b. Ok (b, 2 + n))))"

text \<open>A \<open>Properties\<close> view is the bytes it is a view of.\<close>

record Properties =
  raw :: "byte list"

definition PropertiesFromBytes :: "byte list \<Rightarrow> Properties" where
  "PropertiesFromBytes b = \<lparr>raw = b\<rparr>"

definition readProperties :: "byte list \<Rightarrow> (Properties \<times> nat) gores" where
  "readProperties buf =
     bindR (DecodeVarint buf) (\<lambda>(n, vbiN).
       if (of_nat (length buf - vbiN) :: u32) < n then Err ErrTruncated
       else bindR (slice buf vbiN (vbiN + unat n)) (\<lambda>b. Ok (PropertiesFromBytes b, vbiN + unat n)))"

subsection \<open>Writers\<close>

definition writeUTF8String :: "byte list \<Rightarrow> nat \<Rightarrow> gostring \<Rightarrow> (byte list \<times> nat) gores" where
  "writeUTF8String buf off s =
     bindR (PutUint16 buf off (of_nat (length s))) (\<lambda>buf.
       let off = off + 2 in bindR (copy_at buf off s) (\<lambda>(buf, n). Ok (buf, off + n)))"

definition writeBinaryData :: "byte list \<Rightarrow> nat \<Rightarrow> byte list \<Rightarrow> (byte list \<times> nat) gores" where
  "writeBinaryData buf off b =
     bindR (PutUint16 buf off (of_nat (length b))) (\<lambda>buf.
       let off = off + 2 in bindR (copy_at buf off b) (\<lambda>(buf, n). Ok (buf, off + n)))"

text \<open>The error of \<open>EncodeVarint\<close> is dropped: nothing is written and the offset stays.\<close>

definition writePropertiesPrefix :: "byte list \<Rightarrow> nat \<Rightarrow> nat \<Rightarrow> (byte list \<times> nat) gores" where
  "writePropertiesPrefix buf off propsLen =
     bindR (slice_from buf off) (\<lambda>sub.
       case EncodeVarint sub (of_nat propsLen) of
         Ok (sub', n) \<Rightarrow> Ok (take off buf @ sub', off + n)
       | Err _ \<Rightarrow> Ok (buf, off)
       | Panic \<Rightarrow> Panic)"

definition writeProperty1 :: "byte list \<Rightarrow> nat \<Rightarrow> byte \<Rightarrow> byte option \<Rightarrow> (byte list \<times> nat) gores" where
  "writeProperty1 buf off pid v =
     (case v of None \<Rightarrow> Ok (buf, off)
      | Some b \<Rightarrow> bindR (set_index buf off pid) (\<lambda>buf.
          bindR (set_index buf (off + 1) b) (\<lambda>buf. Ok (buf, off + 2))))"

definition writeProperty2 :: "byte list \<Rightarrow> nat \<Rightarrow> byte \<Rightarrow> u16 \<Rightarrow> (byte list \<times> nat) gores" where
  "writeProperty2 buf off pid v =
     (if v = 0 then Ok (buf, off)
      else bindR (set_index buf off pid) (\<lambda>buf.
        bindR (PutUint16 buf (off + 1) v) (\<lambda>buf. Ok (buf, off + 3))))"

definition writeProperty2P :: "byte list \<Rightarrow> nat \<Rightarrow> byte \<Rightarrow> u16 option \<Rightarrow> (byte list \<times> nat) gores" where
  "writeProperty2P buf off pid v =
     (case v of None \<Rightarrow> Ok (buf, off)
      | Some w \<Rightarrow> bindR (set_index buf off pid) (\<lambda>buf.
          bindR (PutUint16 buf (off + 1) w) (\<lambda>buf. Ok (buf, off + 3))))"

definition writeProperty4 :: "byte list \<Rightarrow> nat \<Rightarrow> byte \<Rightarrow> u32 option \<Rightarrow> (byte list \<times> nat) gores" where
  "writeProperty4 buf off pid v =
     (case v of None \<Rightarrow> Ok (buf, off)
      | Some w \<Rightarrow> bindR (set_index buf off pid) (\<lambda>buf.
          bindR (PutUint32 buf (off + 1) w) (\<lambda>buf. Ok (buf, off + 5))))"

definition writePropertyString :: "byte list \<Rightarrow> nat \<Rightarrow> byte \<Rightarrow> gostring \<Rightarrow> (byte list \<times> nat) gores" where
  "writePropertyString buf off pid v =
     (if v = [] then Ok (buf, off)
      else bindR (set_index buf off pid) (\<lambda>buf. writeUTF8String buf (off + 1) v))"

text \<open>A slice that may be nil is an option: nil is \<^term>\<open>None\<close>.\<close>

definition writePropertyBinary :: "byte list \<Rightarrow> nat \<Rightarrow> byte \<Rightarrow> byte list option \<Rightarrow> (byte list \<times> nat) gores" where
  "writePropertyBinary buf off pid v =
     (case v of None \<Rightarrow> Ok (buf, off)
      | Some b \<Rightarrow> bindR (set_index buf off pid) (\<lambda>buf. writeBinaryData buf (off + 1) b))"

fun writePropertyUserProps :: "byte list \<Rightarrow> nat \<Rightarrow> UserProperty list \<Rightarrow> (byte list \<times> nat) gores" where
  "writePropertyUserProps buf off [] = Ok (buf, off)"
| "writePropertyUserProps buf off (up # props) =
     bindR (set_index buf off PropUserProperty) (\<lambda>buf.
       bindR (writeUTF8String buf (off + 1) (Key up)) (\<lambda>(buf, off).
         bindR (writeUTF8String buf off (Value up)) (\<lambda>(buf, off).
           writePropertyUserProps buf off props)))"

fun userPropertiesLen :: "UserProperty list \<Rightarrow> nat" where
  "userPropertiesLen [] = 0"
| "userPropertiesLen (up # props) =
     1 + 2 + length (Key up) + 2 + length (Value up) + userPropertiesLen props"

subsection \<open>Specification: a property section as a list of properties\<close>

text \<open>A property is its identifier and the bytes of its value.\<close>

type_synonym property = "byte \<times> byte list"

definition str16 :: "byte list \<Rightarrow> byte list" where
  "str16 s = be16 (of_nat (length s)) @ s"

definition enc_props :: "property list \<Rightarrow> byte list" where
  "enc_props ps = concat (map (\<lambda>(pid, v). pid # v) ps)"

definition p1 :: "byte \<Rightarrow> byte option \<Rightarrow> property list" where
  "p1 pid v = (case v of None \<Rightarrow> [] | Some b \<Rightarrow> [(pid, [b])])"

definition p2 :: "byte \<Rightarrow> u16 \<Rightarrow> property list" where
  "p2 pid v = (if v = 0 then [] else [(pid, be16 v)])"

definition p2P :: "byte \<Rightarrow> u16 option \<Rightarrow> property list" where
  "p2P pid v = (case v of None \<Rightarrow> [] | Some w \<Rightarrow> [(pid, be16 w)])"

definition p4 :: "byte \<Rightarrow> u32 option \<Rightarrow> property list" where
  "p4 pid v = (case v of None \<Rightarrow> [] | Some w \<Rightarrow> [(pid, be32 w)])"

definition pV :: "byte \<Rightarrow> u32 option \<Rightarrow> property list" where
  "pV pid v = (case v of None \<Rightarrow> [] | Some w \<Rightarrow> [(pid, vbi (unat w))])"

definition pS :: "byte \<Rightarrow> gostring \<Rightarrow> property list" where
  "pS pid s = (if s = [] then [] else [(pid, str16 s)])"

definition pB :: "byte \<Rightarrow> byte list option \<Rightarrow> property list" where
  "pB pid v = (case v of None \<Rightarrow> [] | Some b \<Rightarrow> [(pid, str16 b)])"

definition pU :: "UserProperty list \<Rightarrow> property list" where
  "pU ups = map (\<lambda>up. (PropUserProperty, str16 (Key up) @ str16 (Value up))) ups"

lemmas prop_spec_defs = p1_def p2_def p2P_def p4_def pV_def pS_def pB_def pU_def

subsection \<open>Lemmas\<close>

lemma bytesToString_id [simp]: "bytesToString b = b"
  by (simp add: bytesToString_def)

lemma length_str16 [simp]: "length (str16 s) = 2 + length s"
  by (simp add: str16_def)

lemma enc_props_simps [simp]:
  "enc_props [] = []"
  "enc_props ((pid, v) # ps) = pid # v @ enc_props ps"
  "enc_props (ps @ qs) = enc_props ps @ enc_props qs"
  by (simp_all add: enc_props_def)

lemma unat_of_nat_u16: "n < 65536 \<Longrightarrow> unat (of_nat n :: u16) = n"
  by (simp add: unat_of_nat)

lemma unat_of_nat_u32: "n < 4294967296 \<Longrightarrow> unat (of_nat n :: u32) = n"
  by (simp add: unat_of_nat)

lemma VarintSize_of_nat: "n < 268435456 \<Longrightarrow> VarintSize (of_nat n) = length (vbi n)"
  by (simp add: VarintSize_vbi word_le_nat_alt MaxVarintValue_def unat_of_nat_u32)

lemma EncodeVarint_exact:
  assumes "n < 268435456" and "length sub = length (vbi n)"
  shows "EncodeVarint sub (of_nat n) = Ok (vbi n, length (vbi n))"
  using EncodeVarint_stores [of "of_nat n" sub] assms
  by (simp add: word_le_nat_alt MaxVarintValue_def unat_of_nat_u32)

lemma readUTF8String_str16 [simp]:
  "length s < 65536 \<Longrightarrow> readUTF8String (str16 s @ rest) = Ok (s, 2 + length s)"
  by (simp add: readUTF8String_def str16_def unat_of_nat_u16 Let_def)

lemma readBinaryData_str16 [simp]:
  "length s < 65536 \<Longrightarrow> readBinaryData (str16 s @ rest) = Ok (s, 2 + length s)"
  by (simp add: readBinaryData_def str16_def unat_of_nat_u16 Let_def)

lemma readProperties_enc [simp]:
  assumes "length b < 268435456" and "length rest < 268435456"
  shows "readProperties (vbi (length b) @ b @ rest) =
    Ok (PropertiesFromBytes b, length (vbi (length b)) + length b)"
  using assms
  by (simp add: readProperties_def DecodeVarint_vbi unat_of_nat_u32 word_less_nat_alt del: of_nat_add)

text \<open>What a successful read says about the input; no reader panics.\<close>

lemma readUTF8String_OkD:
  assumes "readUTF8String buf = Ok (s, n)"
  shows "n = 2 + length s" "length s < 65536" "n \<le> length buf" "take n buf = str16 s"
proof -
  from assms obtain u where u: "Uint16 buf = (Ok u :: u16 gores)" and len: "2 + unat u \<le> length buf"
    and s: "s = take (unat u) (drop 2 buf)" and n: "n = 2 + unat u"
    by (auto simp: readUTF8String_def Let_def bindR_eq_Ok slice_def split: if_splits)
  have ls: "length s = unat u"
    using s len by simp
  show "n = 2 + length s" "length s < 65536" "n \<le> length buf"
    using ls n len unat_less(2) [of u] by simp_all
  have "take n buf = take 2 buf @ take (unat u) (drop 2 buf)"
    unfolding n by (rule take_add)
  then show "take n buf = str16 s"
    using Uint16_OkD [OF u] ls s by (simp add: str16_def)
qed

lemma readUTF8String_not_Panic [simp]: "readUTF8String buf \<noteq> Panic"
  by (auto simp: readUTF8String_def Let_def bindR_eq_Panic)

lemma readBinaryData_eq: "readBinaryData buf = readUTF8String buf"
  by (simp add: readBinaryData_def readUTF8String_def Let_def cong: if_cong)

lemma readProperties_OkD:
  assumes "readProperties buf = Ok (p, n)" and "length buf < 268435456"
  shows "n \<le> length buf" "0 < n" "length (raw p) \<le> n"
proof -
  from assms obtain m k where d: "DecodeVarint buf = Ok (m, k)" and le: "\<not> (of_nat (length buf - k) :: u32) < m"
    and b: "k + unat m \<le> length buf" and p: "p = PropertiesFromBytes (take (unat m) (drop k buf))"
    and n: "n = k + unat m"
    by (auto simp: readProperties_def bindR_eq_Ok slice_def split: if_splits)
  show "n \<le> length buf" "0 < n" "length (raw p) \<le> n"
    using b n p DecodeVarint_OkD(1) [OF d] by (simp_all add: PropertiesFromBytes_def)
qed

lemma readProperties_not_Panic [simp]:
  assumes "length buf < 4294967296"
  shows "readProperties buf \<noteq> Panic"
proof
  assume "readProperties buf = Panic"
  then obtain m k where d: "DecodeVarint buf = Ok (m, k)" and le: "\<not> (of_nat (length buf - k) :: u32) < m"
    and b: "\<not> k + unat m \<le> length buf"
    by (auto simp: readProperties_def bindR_eq_Panic slice_def split: if_splits)
  have "unat (of_nat (length buf - k) :: u32) = length buf - k"
    using assms by (simp add: unat_of_nat_u32)
  then show False
    using le b DecodeVarint_OkD(3) [OF d] by (simp add: word_less_nat_alt)
qed

lemma writeUTF8String_stores [writes]: "stores (\<lambda>buf off. writeUTF8String buf off s) (str16 s)"
  using stores_bind [OF PutUint16_stores copy_at_stores, of "of_nat (length s)" s]
  by (simp add: writeUTF8String_def str16_def bindR_assoc Let_def)

lemma writeBinaryData_stores [writes]: "stores (\<lambda>buf off. writeBinaryData buf off s) (str16 s)"
  using stores_bind [OF PutUint16_stores copy_at_stores, of "of_nat (length s)" s]
  by (simp add: writeBinaryData_def str16_def bindR_assoc Let_def)

lemma writePropertiesPrefix_stores [writes]:
  assumes "n < 268435456"
  shows "stores (\<lambda>buf off. writePropertiesPrefix buf off n) (vbi n)"
proof (rule storesI)
  fix buf :: "byte list" and off
  assume len: "off + length (vbi n) \<le> length buf"
  have un: "unat (of_nat n :: u32) = n" and le: "of_nat n \<le> MaxVarintValue"
    using assms by (simp_all add: unat_of_nat_u32 word_le_nat_alt MaxVarintValue_def)
  show "writePropertiesPrefix buf off n =
      Ok (take off buf @ vbi n @ drop (off + length (vbi n)) buf, off + length (vbi n))"
    using len EncodeVarint_stores [OF le, of "drop off buf"]
    by (simp add: writePropertiesPrefix_def un add.commute)
qed

text \<open>A one-byte identifier followed by another write.\<close>

lemma stores_id_then:
  assumes "stores w bs"
  shows "stores (\<lambda>buf off. bindR (set_index buf off i) (\<lambda>buf. w buf (off + 1))) (i # bs)"
  using stores_bind [OF set_index_stores [of i] assms] by (simp add: bindR_assoc)

lemma writeProperty1_stores [writes]: "stores (\<lambda>buf off. writeProperty1 buf off pid v) (enc_props (p1 pid v))"
proof (cases v)
  case (Some b)
  then show ?thesis
    using stores_id_then [OF set_index_stores [of b], of pid]
    by (simp add: writeProperty1_def p1_def)
qed (simp add: writeProperty1_def p1_def stores_id)

lemma writeProperty2P_stores [writes]: "stores (\<lambda>buf off. writeProperty2P buf off pid v) (enc_props (p2P pid v))"
proof (cases v)
  case (Some w)
  then show ?thesis
    using stores_id_then [OF PutUint16_stores [of w], of pid]
    by (simp add: writeProperty2P_def p2P_def numeral_3_eq_3)
qed (simp add: writeProperty2P_def p2P_def stores_id)

lemma writeProperty2_stores [writes]: "stores (\<lambda>buf off. writeProperty2 buf off pid v) (enc_props (p2 pid v))"
  using writeProperty2P_stores [of pid "if v = 0 then None else Some v"]
  by (cases "v = 0") (simp_all add: writeProperty2_def writeProperty2P_def p2_def p2P_def)

lemma writeProperty4_stores [writes]: "stores (\<lambda>buf off. writeProperty4 buf off pid v) (enc_props (p4 pid v))"
proof (cases v)
  case (Some w)
  then show ?thesis
    using stores_id_then [OF PutUint32_stores [of w], of pid]
    by (simp add: writeProperty4_def p4_def add.commute)
qed (simp add: writeProperty4_def p4_def stores_id)

lemma writePropertyBinary_stores [writes]:
  "stores (\<lambda>buf off. writePropertyBinary buf off pid v) (enc_props (pB pid v))"
  using stores_id_then [OF writeBinaryData_stores, of pid "the v"]
  by (cases v) (simp_all add: writePropertyBinary_def pB_def stores_id)

lemma writePropertyString_stores [writes]:
  "stores (\<lambda>buf off. writePropertyString buf off pid v) (enc_props (pS pid v))"
  using stores_id_then [OF writeUTF8String_stores, of pid v]
  by (cases "v = []") (simp_all add: writePropertyString_def pS_def stores_id)

lemma writePropertyUserProps_stores [writes]:
  "stores (\<lambda>buf off. writePropertyUserProps buf off props) (enc_props (pU props))"
proof (induction props)
  case Nil
  then show ?case by (simp add: pU_def stores_id)
next
  case (Cons up props)
  have "stores (\<lambda>buf off. bindR (writeUTF8String buf off (Key up)) (\<lambda>(buf, off).
      bindR (writeUTF8String buf off (Value up)) (\<lambda>(buf, off). writePropertyUserProps buf off props)))
      (str16 (Key up) @ str16 (Value up) @ enc_props (pU props))"
    by (intro stores_bind writes Cons.IH)
  from stores_id_then [OF this, of PropUserProperty] show ?case
    by (simp add: pU_def)
qed

lemma userPropertiesLen_eq: "userPropertiesLen props = length (enc_props (pU props))"
  by (induction props) (simp_all add: pU_def)

lemma u32_len_le:
  assumes "\<not> (of_nat n :: u32) < m" and "n < 4294967296"
  shows "unat m \<le> n"
  using assms by (simp add: word_less_nat_alt unat_of_nat_u32)

text \<open>Splitting a property section off a buffer of fewer than \<open>2\<^sup>3\<^sup>2\<close> bytes stays in range.\<close>

lemma split_section_not_Panic:
  assumes "length buf < 4294967296" and "\<And>pr r. K pr r \<noteq> Panic"
  shows "(if (of_nat (length buf) :: u32) < m then Err e
     else bindR (slice buf 0 (unat m)) (\<lambda>pr. bindR (slice_from buf (unat m)) (\<lambda>r. K pr r))) \<noteq> Panic"
  using assms u32_len_le [of "length buf" m] by simp

end
