(* ===== verification/Props.thy ===== *)
theory Props
  imports Wire_Fields
begin

text \<open>
  Lazy property lookup (\<open>propValueSize\<close>, \<open>find\<close> and the typed accessors of \<open>Properties\<close> in
  \<open>wire/fields.go\<close>). The loops of the source walk \<open>p.raw\<close> with an offset \<open>off\<close>; here the
  loop's argument is \<open>p.raw[off:]\<close>, the bytes still ahead, which are none when a value's size
  takes the offset past the end. A pair \<open>(value, ok)\<close> is an option.

  The specification is a list of properties: \<open>wf_property\<close> holds of an identifier and value
  whose size on the wire is the value's length, and on the encoding of a list of well-formed
  properties the accessors are the lookup of the first property with the identifier.
\<close>

subsection \<open>Operations\<close>

definition propValueSize :: "byte \<Rightarrow> byte list \<Rightarrow> nat gores" where
  "propValueSize pid buf =
     (if pid \<in> {PropPayloadFormat, PropRequestProblemInfo, PropRequestResponseInfo, PropMaximumQoS,
                PropRetainAvailable, PropWildcardSubAvailable, PropSubscriptionIDAvailable,
                PropSharedSubAvailable} then Ok 1
      else if pid \<in> {PropServerKeepAlive, PropReceiveMaximum, PropTopicAliasMaximum, PropTopicAlias} then Ok 2
      else if pid \<in> {PropMessageExpiryInterval, PropSessionExpiryInterval, PropWillDelayInterval,
                PropMaximumPacketSize} then Ok 4
      else if pid = PropSubscriptionIdentifier then bindR (DecodeVarint buf) (\<lambda>(_, n). Ok n)
      else if pid \<in> {PropContentType, PropResponseTopic, PropAssignedClientID, PropAuthMethod,
                PropResponseInformation, PropServerReference, PropReasonString, PropCorrelationData,
                PropAuthData} then
        if length buf < 2 then Err ErrInvalidProperties
        else bindR (Uint16 buf) (\<lambda>n. Ok (2 + unat n))
      else if pid = PropUserProperty then
        if length buf < 2 then Err ErrInvalidProperties
        else bindR (Uint16 buf) (\<lambda>kn.
          if length buf < 2 + unat kn + 2 then Err ErrInvalidProperties
          else bindR (slice_from buf (2 + unat kn)) (\<lambda>b. bindR (Uint16 b) (\<lambda>vn.
            Ok (2 + unat kn + 2 + unat vn))))
      else Err ErrInvalidProperties)"

function props_find_loop :: "byte \<Rightarrow> byte list \<Rightarrow> byte list option" where
  "props_find_loop pid [] = None"
| "props_find_loop pid (curID # rest) =
     (if curID = pid then Some rest
      else case propValueSize curID rest of
             Ok skip \<Rightarrow> props_find_loop pid (drop skip rest)
           | _ \<Rightarrow> None)"
  by pat_completeness auto
termination
  by (relation "measure (\<lambda>(pid, r). length r)") auto

definition props_find :: "Properties \<Rightarrow> byte \<Rightarrow> byte list option" where
  "props_find p pid = props_find_loop pid (raw p)"

definition Properties_Byte :: "Properties \<Rightarrow> byte \<Rightarrow> byte option" where
  "Properties_Byte p pid =
     (case props_find p pid of
        None \<Rightarrow> None
      | Some v \<Rightarrow> if length v < 1 then None else Some (hd v))"

definition Properties_Uint16 :: "Properties \<Rightarrow> byte \<Rightarrow> u16 option" where
  "Properties_Uint16 p pid =
     (case props_find p pid of
        None \<Rightarrow> None
      | Some v \<Rightarrow> if length v < 2 then None
                  else case Uint16 v of Ok u \<Rightarrow> Some u | (_ :: u16 gores) \<Rightarrow> None)"

definition Properties_Uint32 :: "Properties \<Rightarrow> byte \<Rightarrow> u32 option" where
  "Properties_Uint32 p pid =
     (case props_find p pid of
        None \<Rightarrow> None
      | Some v \<Rightarrow> if length v < 4 then None
                  else case Uint32 v of Ok u \<Rightarrow> Some u | (_ :: u32 gores) \<Rightarrow> None)"

definition Properties_Varint :: "Properties \<Rightarrow> byte \<Rightarrow> u32 option" where
  "Properties_Varint p pid =
     (case props_find p pid of
        None \<Rightarrow> None
      | Some v \<Rightarrow> (case DecodeVarint v of Ok (u, _) \<Rightarrow> Some u | _ \<Rightarrow> None))"

definition Properties_Binary :: "Properties \<Rightarrow> byte \<Rightarrow> byte list option" where
  "Properties_Binary p pid =
     (case props_find p pid of
        None \<Rightarrow> None
      | Some v \<Rightarrow>
          if length v < 2 then None
          else case Uint16 v of
                 Ok u \<Rightarrow> if length v < 2 + unat u then None else Some (take (unat u) (drop 2 v))
               | (_ :: u16 gores) \<Rightarrow> None)"

definition Properties_String :: "Properties \<Rightarrow> byte \<Rightarrow> gostring option" where
  "Properties_String p pid =
     (case props_find p pid of
        None \<Rightarrow> None
      | Some v \<Rightarrow>
          if length v < 2 then None
          else case Uint16 v of
                 Ok u \<Rightarrow> if length v < 2 + unat u then None
                         else Some (bytesToString (take (unat u) (drop 2 v)))
               | (_ :: u16 gores) \<Rightarrow> None)"

text \<open>The pairs the iterator yields when the caller takes all of them.\<close>

function UserProperties_loop :: "byte list \<Rightarrow> UserProperty list" where
  "UserProperties_loop [] = []"
| "UserProperties_loop (pid # rest) =
     (if pid \<noteq> PropUserProperty then
        (case propValueSize pid rest of
           Ok skip \<Rightarrow> UserProperties_loop (drop skip rest)
         | _ \<Rightarrow> [])
      else case readUTF8String rest of
             Ok (k, kn) \<Rightarrow>
               (case readUTF8String (drop kn rest) of
                  Ok (v, vn) \<Rightarrow> \<lparr>Key = k, Value = v\<rparr> # UserProperties_loop (drop vn (drop kn rest))
                | _ \<Rightarrow> [])
           | _ \<Rightarrow> [])"
  by pat_completeness auto
termination
  by (relation "measure length") auto

definition UserProperties :: "Properties \<Rightarrow> UserProperty list" where
  "UserProperties p = UserProperties_loop (raw p)"

function SubscriptionIdentifiers_loop :: "byte list \<Rightarrow> u32 list" where
  "SubscriptionIdentifiers_loop [] = []"
| "SubscriptionIdentifiers_loop (pid # rest) =
     (case propValueSize pid rest of
        Ok sz \<Rightarrow>
          if sz > length rest then []
          else (if pid = PropSubscriptionIdentifier
                then (case DecodeVarint (take sz rest) of Ok (v, _) \<Rightarrow> [v] | _ \<Rightarrow> [])
                else [])
               @ SubscriptionIdentifiers_loop (drop sz rest)
      | _ \<Rightarrow> [])"
  by pat_completeness auto
termination
  by (relation "measure length") auto

definition SubscriptionIdentifiers :: "Properties \<Rightarrow> u32 list" where
  "SubscriptionIdentifiers p = SubscriptionIdentifiers_loop (raw p)"

subsection \<open>Specification\<close>

definition wf_property :: "property \<Rightarrow> bool" where
  "wf_property p = (case p of (pid, v) \<Rightarrow> propValueSize pid v = Ok (length v))"

definition wf_properties :: "property list \<Rightarrow> bool" where
  "wf_properties ps = list_all wf_property ps"

subsection \<open>Lemmas\<close>

lemma vbi_dec_append: "vbi_dec b = Some r \<Longrightarrow> vbi_dec (b @ x) = Some r"
  by (induction b arbitrary: r) (auto split: if_splits)

lemma vbi_dec_take: "vbi_dec b = Some (m, k) \<Longrightarrow> k \<le> n \<Longrightarrow> vbi_dec (take n b) = Some (m, k)"
proof (induction b arbitrary: m k n)
  case (Cons b r)
  then obtain n' where n: "n = Suc n'"
    using vbi_dec_Some [OF Cons.prems(1)] by (cases n) auto
  show ?case
    using Cons.prems Cons.IH [of _ _ n'] by (auto simp: n split: if_splits)
qed simp

lemma DecodeVarint_append:
  assumes "DecodeVarint b = Ok (m, k)" and "k \<le> length b"
  shows "DecodeVarint (b @ x) = Ok (m, k)"
proof -
  obtain v where dec: "vbi_dec (take 4 b) = Some (v, k)" and m: "m = of_nat v"
    using assms(1) by (auto simp: DecodeVarint_dec split: option.splits)
  have "vbi_dec (take 4 (b @ x)) = Some (v, k)"
    using vbi_dec_append [OF dec] by simp
  then show ?thesis by (simp add: DecodeVarint_dec m)
qed

lemma DecodeVarint_take:
  assumes "DecodeVarint b = Ok (m, k)"
  shows "DecodeVarint (take k b) = Ok (m, k)"
proof -
  obtain v where dec: "vbi_dec (take 4 b) = Some (v, k)" and m: "m = of_nat v"
    using assms(1) by (auto simp: DecodeVarint_dec split: option.splits)
  have "vbi_dec (take k (take 4 b)) = Some (v, k)"
    using vbi_dec_take [OF dec] by simp
  then show ?thesis by (simp add: DecodeVarint_dec m min.commute)
qed

lemma Uint16_append: "Uint16 b = Ok u \<Longrightarrow> Uint16 (b @ x) = Ok u"
  by (auto simp: Uint16_def bindR_eq_Ok index_def nth_append split: if_splits)

lemma Uint16_take: "Uint16 b = Ok u \<Longrightarrow> 2 \<le> n \<Longrightarrow> Uint16 (take n b) = Ok u"
  by (auto simp: Uint16_def bindR_eq_Ok index_def split: if_splits)

text \<open>The three shapes of a length-dependent value: a varint, one field, and a pair of fields.\<close>

definition field_size :: "byte list \<Rightarrow> nat gores" where
  "field_size buf =
     (if length buf < 2 then Err ErrInvalidProperties
      else bindR (Uint16 buf) (\<lambda>n. Ok (2 + unat n)))"

definition pair_size :: "byte list \<Rightarrow> nat gores" where
  "pair_size buf =
     (if length buf < 2 then Err ErrInvalidProperties
      else bindR (Uint16 buf) (\<lambda>kn.
        if length buf < 2 + unat kn + 2 then Err ErrInvalidProperties
        else bindR (slice_from buf (2 + unat kn)) (\<lambda>b. bindR (Uint16 b) (\<lambda>vn.
          Ok (2 + unat kn + 2 + unat vn)))))"

definition varint_size :: "byte list \<Rightarrow> nat gores" where
  "varint_size buf = bindR (DecodeVarint buf) (\<lambda>(_, n). Ok n)"

lemma propValueSize_of:
  "pid \<in> {PropPayloadFormat, PropRequestProblemInfo, PropRequestResponseInfo, PropMaximumQoS,
     PropRetainAvailable, PropWildcardSubAvailable, PropSubscriptionIDAvailable,
     PropSharedSubAvailable} \<Longrightarrow> propValueSize pid = (\<lambda>b. Ok 1)"
  "pid \<in> {PropServerKeepAlive, PropReceiveMaximum, PropTopicAliasMaximum, PropTopicAlias} \<Longrightarrow>
     propValueSize pid = (\<lambda>b. Ok 2)"
  "pid \<in> {PropMessageExpiryInterval, PropSessionExpiryInterval, PropWillDelayInterval,
     PropMaximumPacketSize} \<Longrightarrow> propValueSize pid = (\<lambda>b. Ok 4)"
  "propValueSize PropSubscriptionIdentifier = varint_size"
  "pid \<in> {PropContentType, PropResponseTopic, PropAssignedClientID, PropAuthMethod,
     PropResponseInformation, PropServerReference, PropReasonString, PropCorrelationData,
     PropAuthData} \<Longrightarrow> propValueSize pid = field_size"
  "propValueSize PropUserProperty = pair_size"
  by (rule ext, auto simp: propValueSize_def varint_size_def field_size_def pair_size_def)+

lemma propValueSize_shape:
  "\<exists>a b c d e f. propValueSize pid =
     (\<lambda>buf. if a then Ok 1 else if b then Ok 2 else if c then Ok 4 else if d then varint_size buf
        else if e then field_size buf else if f then pair_size buf else Err ErrInvalidProperties)"
  unfolding propValueSize_def [abs_def] field_size_def pair_size_def varint_size_def
  by (intro exI) (rule refl)

lemma propValueSize_cases:
  obtains (fixed) n where "propValueSize pid = (\<lambda>b. Ok n)"
  | (varint) "propValueSize pid = varint_size"
  | (field) "propValueSize pid = field_size"
  | (pair) "propValueSize pid = pair_size"
  | (unknown) "propValueSize pid = (\<lambda>b. Err ErrInvalidProperties)"
proof -
  obtain a b c d e f where shape: "propValueSize pid =
     (\<lambda>buf. if a then Ok 1 else if b then Ok 2 else if c then Ok 4 else if d then varint_size buf
        else if e then field_size buf else if f then pair_size buf else Err ErrInvalidProperties)"
    using propValueSize_shape by blast
  show thesis
    using that [unfolded shape] by (cases a; cases b; cases c; cases d; cases e; cases f) simp_all
qed

lemma varint_size_append: "varint_size v = Ok n \<Longrightarrow> n \<le> length v \<Longrightarrow> varint_size (v @ r) = Ok n"
  by (auto simp: varint_size_def bindR_eq_Ok DecodeVarint_append)

lemma field_size_append: "field_size v = Ok n \<Longrightarrow> field_size (v @ r) = Ok n"
  by (auto simp: field_size_def bindR_eq_Ok Uint16_append split: if_splits)

lemma pair_size_eq_Ok:
  "pair_size b = Ok n \<longleftrightarrow>
     (\<exists>kn vn. 2 + unat kn + 2 \<le> length b \<and> Uint16 b = (Ok kn :: u16 gores) \<and>
       Uint16 (drop (2 + unat kn) b) = (Ok vn :: u16 gores) \<and> n = 2 + unat kn + 2 + unat vn)"
proof (cases "length b < 2")
  case False
  then obtain kn where kn: "Uint16 b = (Ok kn :: u16 gores)"
    by (cases b) (auto simp: Uint16_def)
  show ?thesis
    using False by (auto simp: pair_size_def kn bindR_eq_Ok)
qed (auto simp: pair_size_def)

lemma pair_size_append: "pair_size v = Ok n \<Longrightarrow> pair_size (v @ r) = Ok n"
  by (fastforce simp: pair_size_eq_Ok Uint16_append)

lemma propValueSize_append:
  assumes "propValueSize pid v = Ok n" and "n \<le> length v"
  shows "propValueSize pid (v @ r) = Ok n"
  using assms
  by (cases pid rule: propValueSize_cases) (auto simp: varint_size_append field_size_append pair_size_append)

lemma varint_size_take: "varint_size b = Ok n \<Longrightarrow> varint_size (take n b) = Ok n"
  by (auto simp: varint_size_def bindR_eq_Ok dest: DecodeVarint_take)

lemma field_size_take: "field_size b = Ok n \<Longrightarrow> field_size (take n b) = Ok n"
  by (auto simp: field_size_def bindR_eq_Ok Uint16_take split: if_splits)

lemma pair_size_take:
  assumes "pair_size b = Ok n" and "n \<le> length b"
  shows "pair_size (take n b) = Ok n"
proof -
  obtain kn vn where p: "2 + unat kn + 2 \<le> length b" "Uint16 b = (Ok kn :: u16 gores)"
    "Uint16 (drop (2 + unat kn) b) = (Ok vn :: u16 gores)" and n: "n = 2 + unat kn + 2 + unat vn"
    using assms(1) unfolding pair_size_eq_Ok by blast
  have "Uint16 (take n b) = (Ok kn :: u16 gores)"
    using p(2) n by (simp add: Uint16_take)
  moreover have "Uint16 (drop (2 + unat kn) (take n b)) = (Ok vn :: u16 gores)"
    using p(3) n by (simp add: Uint16_take drop_take)
  moreover have "2 + unat kn + 2 \<le> length (take n b)"
    using assms(2) n by simp
  ultimately show ?thesis
    unfolding pair_size_eq_Ok using n by blast
qed

lemma propValueSize_take:
  assumes "propValueSize pid b = Ok n" and "n \<le> length b"
  shows "wf_property (pid, take n b)"
  using assms
  by (cases pid rule: propValueSize_cases)
    (auto simp: wf_property_def min_def varint_size_take field_size_take pair_size_take)

lemma propValueSize_not_Panic [simp]: "propValueSize pid b \<noteq> Panic"
  by (cases pid rule: propValueSize_cases)
    (auto simp: varint_size_def field_size_def pair_size_def bindR_eq_Panic Uint16_def DecodeVarint_not_Panic)

lemma wf_properties_simps [simp]:
  "wf_properties []"
  "wf_properties (p # ps) \<longleftrightarrow> wf_property p \<and> wf_properties ps"
  "wf_properties (ps @ qs) \<longleftrightarrow> wf_properties ps \<and> wf_properties qs"
  by (auto simp: wf_properties_def)

lemma wf_property_size:
  "wf_property (pid, v) \<Longrightarrow> propValueSize pid (v @ r) = Ok (length v)"
  by (simp add: wf_property_def propValueSize_append)

lemma props_find_loop_None:
  "wf_properties ps \<Longrightarrow> map_of ps pid = None \<Longrightarrow> props_find_loop pid (enc_props ps) = None"
proof (induction ps)
  case (Cons p ps)
  obtain i v where p: "p = (i, v)" by (cases p)
  show ?case
    using Cons by (cases "i = pid") (simp_all add: p wf_property_size)
qed simp

lemma props_find_loop_Some:
  "wf_properties ps \<Longrightarrow> map_of ps pid = Some v \<Longrightarrow> \<exists>r. props_find_loop pid (enc_props ps) = Some (v @ r)"
proof (induction ps)
  case (Cons p ps)
  obtain i w where p: "p = (i, w)" by (cases p)
  show ?case
  proof (cases "i = pid")
    case True
    then have "props_find_loop pid (enc_props (p # ps)) = Some (v @ enc_props ps)"
      using Cons.prems by (simp add: p)
    then show ?thesis by blast
  next
    case False
    then have "props_find_loop pid (enc_props (p # ps)) = props_find_loop pid (enc_props ps)"
      using Cons.prems by (simp add: p wf_property_size)
    then show ?thesis
      using Cons False by (simp add: p)
  qed
qed simp

text \<open>The accessors on the encoding of well-formed properties.\<close>

lemma Properties_absent:
  assumes "wf_properties ps" and "map_of ps pid = None"
  shows "Properties_Byte (PropertiesFromBytes (enc_props ps)) pid = None"
    and "Properties_Uint16 (PropertiesFromBytes (enc_props ps)) pid = None"
    and "Properties_Uint32 (PropertiesFromBytes (enc_props ps)) pid = None"
    and "Properties_Varint (PropertiesFromBytes (enc_props ps)) pid = None"
    and "Properties_String (PropertiesFromBytes (enc_props ps)) pid = None"
    and "Properties_Binary (PropertiesFromBytes (enc_props ps)) pid = None"
  using props_find_loop_None [OF assms]
  by (simp_all add: PropertiesFromBytes_def props_find_def Properties_Byte_def Properties_Uint16_def
      Properties_Uint32_def Properties_Varint_def Properties_String_def Properties_Binary_def)

lemma props_find_present:
  assumes "wf_properties ps" and "map_of ps pid = Some v"
  obtains r where "props_find (PropertiesFromBytes (enc_props ps)) pid = Some (v @ r)"
  using props_find_loop_Some [OF assms] by (auto simp: PropertiesFromBytes_def props_find_def)

lemma Properties_Byte_present:
  assumes "wf_properties ps" and "map_of ps pid = Some [b]"
  shows "Properties_Byte (PropertiesFromBytes (enc_props ps)) pid = Some b"
  by (rule props_find_present [OF assms]) (simp add: Properties_Byte_def)

lemma Properties_Uint16_present:
  assumes "wf_properties ps" and "map_of ps pid = Some (be16 w)"
  shows "Properties_Uint16 (PropertiesFromBytes (enc_props ps)) pid = Some w"
  by (rule props_find_present [OF assms]) (simp add: Properties_Uint16_def)

lemma Properties_Uint32_present:
  assumes "wf_properties ps" and "map_of ps pid = Some (be32 w)"
  shows "Properties_Uint32 (PropertiesFromBytes (enc_props ps)) pid = Some w"
  by (rule props_find_present [OF assms]) (simp add: Properties_Uint32_def)

lemma Properties_Varint_present:
  assumes "wf_properties ps" and "map_of ps pid = Some (vbi n)" and "n < 268435456"
  shows "Properties_Varint (PropertiesFromBytes (enc_props ps)) pid = Some (of_nat n)"
  using assms(3) by (rule_tac props_find_present [OF assms(1,2)]) (simp add: Properties_Varint_def DecodeVarint_vbi)

lemma Properties_String_present:
  assumes "wf_properties ps" and "map_of ps pid = Some (str16 s)" and "length s < 65536"
  shows "Properties_String (PropertiesFromBytes (enc_props ps)) pid = Some s"
proof -
  obtain r where "props_find (PropertiesFromBytes (enc_props ps)) pid = Some (str16 s @ r)"
    by (rule props_find_present [OF assms(1,2)])
  then show ?thesis
    using assms(3) by (simp add: Properties_String_def str16_def unat_of_nat_u16)
qed

lemma Properties_Binary_String: "Properties_Binary p pid = Properties_String p pid"
  unfolding Properties_Binary_def Properties_String_def bytesToString_id by (rule refl)

lemmas Properties_Binary_present =
  Properties_String_present [folded Properties_Binary_String]

lemmas Properties_present =
  Properties_Byte_present Properties_Uint16_present Properties_Uint32_present
  Properties_Varint_present Properties_String_present Properties_Binary_present

text \<open>Well-formedness of the properties the writers produce.\<close>

lemma wf_property_fixed:
  "pid \<in> {PropPayloadFormat, PropRequestProblemInfo, PropRequestResponseInfo, PropMaximumQoS,
     PropRetainAvailable, PropWildcardSubAvailable, PropSubscriptionIDAvailable,
     PropSharedSubAvailable} \<Longrightarrow> wf_property (pid, [b])"
  "pid \<in> {PropServerKeepAlive, PropReceiveMaximum, PropTopicAliasMaximum, PropTopicAlias} \<Longrightarrow>
     wf_property (pid, be16 w)"
  "pid \<in> {PropMessageExpiryInterval, PropSessionExpiryInterval, PropWillDelayInterval,
     PropMaximumPacketSize} \<Longrightarrow> wf_property (pid, be32 d)"
  by (simp_all add: wf_property_def propValueSize_of del: insert_iff)

lemma wf_property_str16:
  "pid \<in> {PropContentType, PropResponseTopic, PropAssignedClientID, PropAuthMethod,
     PropResponseInformation, PropServerReference, PropReasonString, PropCorrelationData,
     PropAuthData} \<Longrightarrow> length s < 65536 \<Longrightarrow> wf_property (pid, str16 s)"
  by (auto simp: wf_property_def propValueSize_def str16_def unat_of_nat_u16)

lemma wf_property_varint:
  "n < 268435456 \<Longrightarrow> wf_property (PropSubscriptionIdentifier, vbi n)"
  using DecodeVarint_vbi [of n "[]"] by (simp add: wf_property_def propValueSize_def)

lemma wf_property_user:
  "length k < 65536 \<Longrightarrow> length v < 65536 \<Longrightarrow> wf_property (PropUserProperty, str16 k @ str16 v)"
  by (simp add: wf_property_def propValueSize_def str16_def unat_of_nat_u16)

lemmas wf_property_intros = wf_property_fixed wf_property_str16 wf_property_varint wf_property_user

definition wf_user :: "UserProperty \<Rightarrow> bool" where
  "wf_user up = (length (Key up) < 65536 \<and> length (Value up) < 65536)"

lemma wf_properties_pU [simp]: "list_all wf_user ups \<Longrightarrow> wf_properties (pU ups)"
  by (induction ups) (auto simp: pU_def wf_user_def wf_property_user)

lemma UserProperties_pU:
  "list_all wf_user ups \<Longrightarrow> UserProperties_loop (enc_props (pU ups)) = ups"
  by (induction ups) (auto simp: pU_def wf_user_def)

lemma UserProperties_skip:
  "wf_properties ps \<Longrightarrow> list_all (\<lambda>(i, _). i \<noteq> PropUserProperty) ps \<Longrightarrow>
    UserProperties_loop (enc_props ps @ r) = UserProperties_loop r"
proof (induction ps)
  case (Cons p ps)
  obtain i v where p: "p = (i, v)" by (cases p)
  show ?case
    using Cons by (simp add: p wf_property_size)
qed simp

lemma SubscriptionIdentifiers_enc:
  assumes "wf_properties ps"
  shows "SubscriptionIdentifiers_loop (enc_props ps) =
    concat (map (\<lambda>(i, v). if i = PropSubscriptionIdentifier
                           then (case DecodeVarint v of Ok (n, _) \<Rightarrow> [n] | _ \<Rightarrow> []) else []) ps)"
  using assms
proof (induction ps)
  case (Cons p ps)
  obtain i v where p: "p = (i, v)" by (cases p)
  show ?case
    using Cons by (simp add: p wf_property_size)
qed simp

lemma map_of_props [simp]:
  "map_of (p1 i v) pid = (if pid = i then map_option (\<lambda>b. [b]) v else None)"
  "map_of (p2 i w) pid = (if pid = i \<and> w \<noteq> 0 then Some (be16 w) else None)"
  "map_of (p2P i h) pid = (if pid = i then map_option be16 h else None)"
  "map_of (p4 i d) pid = (if pid = i then map_option be32 d else None)"
  "map_of (pV i d) pid = (if pid = i then map_option (\<lambda>n. vbi (unat n)) d else None)"
  "map_of (pS i s) pid = (if pid = i \<and> s \<noteq> [] then Some (str16 s) else None)"
  "map_of (pB i b) pid = (if pid = i then map_option str16 b else None)"
  by (auto simp: prop_spec_defs split: option.splits)

lemma map_of_pU [simp]: "pid \<noteq> PropUserProperty \<Longrightarrow> map_of (pU ups) pid = None"
  by (induction ups) (auto simp: pU_def)

lemma Properties_enc:
  assumes "wf_properties ps"
  shows "map_of ps pid = map_option (\<lambda>b. [b]) v \<Longrightarrow> Properties_Byte (PropertiesFromBytes (enc_props ps)) pid = v"
    and "map_of ps pid = map_option be16 h \<Longrightarrow> Properties_Uint16 (PropertiesFromBytes (enc_props ps)) pid = h"
    and "map_of ps pid = map_option be32 d \<Longrightarrow> Properties_Uint32 (PropertiesFromBytes (enc_props ps)) pid = d"
    and "map_of ps pid = map_option str16 b \<Longrightarrow> length (case b of None \<Rightarrow> [] | Some x \<Rightarrow> x) < 65536 \<Longrightarrow>
      Properties_Binary (PropertiesFromBytes (enc_props ps)) pid = b"
    and "map_of ps pid = (if s = [] then None else Some (str16 s)) \<Longrightarrow> length s < 65536 \<Longrightarrow>
      (case Properties_String (PropertiesFromBytes (enc_props ps)) pid of Some x \<Rightarrow> x | None \<Rightarrow> []) = s"
    and "map_of ps pid = (if w = 0 then None else Some (be16 w)) \<Longrightarrow>
      (case Properties_Uint16 (PropertiesFromBytes (enc_props ps)) pid of Some x \<Rightarrow> x | None \<Rightarrow> 0) = w"
       apply (cases v; simp add: Properties_absent [OF assms] Properties_present [OF assms])
      apply (cases h; simp add: Properties_absent [OF assms] Properties_present [OF assms])
     apply (cases d; simp add: Properties_absent [OF assms] Properties_present [OF assms])
    apply (cases b; simp add: Properties_absent [OF assms] Properties_present [OF assms])
   apply (cases "s = []"; simp add: Properties_absent [OF assms] Properties_present [OF assms])
  apply (cases "w = 0"; simp add: Properties_absent [OF assms] Properties_present [OF assms])
  done

lemma wf_properties_p:
  "i \<in> {PropPayloadFormat, PropRequestProblemInfo, PropRequestResponseInfo, PropMaximumQoS,
     PropRetainAvailable, PropWildcardSubAvailable, PropSubscriptionIDAvailable,
     PropSharedSubAvailable} \<Longrightarrow> wf_properties (p1 i v)"
  "j \<in> {PropServerKeepAlive, PropReceiveMaximum, PropTopicAliasMaximum, PropTopicAlias} \<Longrightarrow> wf_properties (p2 j w)"
  "j \<in> {PropServerKeepAlive, PropReceiveMaximum, PropTopicAliasMaximum, PropTopicAlias} \<Longrightarrow> wf_properties (p2P j h)"
  "k \<in> {PropMessageExpiryInterval, PropSessionExpiryInterval, PropWillDelayInterval,
     PropMaximumPacketSize} \<Longrightarrow> wf_properties (p4 k d)"
  "l \<in> {PropContentType, PropResponseTopic, PropAssignedClientID, PropAuthMethod,
     PropResponseInformation, PropServerReference, PropReasonString, PropCorrelationData,
     PropAuthData} \<Longrightarrow> length s < 65536 \<Longrightarrow> wf_properties (pS l s)"
  "l \<in> {PropContentType, PropResponseTopic, PropAssignedClientID, PropAuthMethod,
     PropResponseInformation, PropServerReference, PropReasonString, PropCorrelationData,
     PropAuthData} \<Longrightarrow> length (case b of None \<Rightarrow> [] | Some x \<Rightarrow> x) < 65536 \<Longrightarrow> wf_properties (pB l b)"
       apply (cases v; simp add: p1_def wf_property_fixed del: insert_iff)
      apply (cases "w = 0"; simp add: p2_def wf_property_fixed del: insert_iff)
     apply (cases h; simp add: p2P_def wf_property_fixed del: insert_iff)
    apply (cases d; simp add: p4_def wf_property_fixed del: insert_iff)
   apply (cases "s = []"; simp add: pS_def wf_property_str16 del: insert_iff)
  apply (cases b; simp add: pB_def wf_property_str16 del: insert_iff)
  done

lemma wf_properties_pV: "(\<And>n. d = Some n \<Longrightarrow> unat n < 268435456) \<Longrightarrow> wf_properties (pV PropSubscriptionIdentifier d)"
  by (cases d) (simp_all add: pV_def wf_property_varint)

lemma UserProperties_enc:
  assumes "wf_properties ps" and "list_all (\<lambda>(i, _). i \<noteq> PropUserProperty) ps" and "list_all wf_user ups"
  shows "UserProperties (PropertiesFromBytes (enc_props (ps @ pU ups))) = ups"
  using UserProperties_skip [OF assms(1,2)] UserProperties_pU [OF assms(3)]
  by (simp add: UserProperties_def PropertiesFromBytes_def)

text \<open>A property section that can be walked to its end is the encoding of a property list.\<close>

function parse_props :: "byte list \<Rightarrow> property list option" where
  "parse_props [] = Some []"
| "parse_props (pid # rest) =
     (case propValueSize pid rest of
        Ok sz \<Rightarrow> if sz > length rest then None
                else map_option (Cons (pid, take sz rest)) (parse_props (drop sz rest))
      | _ \<Rightarrow> None)"
  by pat_completeness auto
termination
  by (relation "measure length") auto

lemma parse_props_enc: "wf_properties ps \<Longrightarrow> parse_props (enc_props ps) = Some ps"
proof (induction ps)
  case (Cons p ps)
  obtain i v where p: "p = (i, v)" by (cases p)
  show ?case
    using Cons by (simp add: p wf_property_size)
qed simp

lemma parse_props_Some:
  "parse_props b = Some ps \<Longrightarrow> wf_properties ps \<and> enc_props ps = b"
proof (induction b arbitrary: ps rule: parse_props.induct)
  case (2 pid rest)
  then obtain sz qs where sz: "propValueSize pid rest = Ok sz" "sz \<le> length rest"
      "parse_props (drop sz rest) = Some qs" and ps: "ps = (pid, take sz rest) # qs"
    by (auto split: res.splits if_splits)
  show ?case
    using "2.IH" [OF sz(1) _ sz(3)] sz propValueSize_take [OF sz(1,2)] by (simp add: ps)
qed simp

end
