(* ===== verification/Utf8.thy ===== *)
theory Utf8
  imports Wire_Fields
begin

text \<open>
  UTF-8 checks (\<open>validUTF8\<close>, \<open>validUTF8Bytes\<close> and \<open>scanTopicName\<close> of \<open>wire/validate.go\<close>) with
  the library function \<open>utf8.Valid\<close> they call. The screens read eight bytes at a time as one
  little-endian \<open>uint64\<close> and subtract with wrap-around; a loop's argument is \<open>b[i:]\<close>.

  The locale \<open>byte_screen\<close> is the contract of such a screen: a word it lets through holds no bad
  byte. Both screens of the source are instances of it, and both routines are shown equal to a
  plain check of every byte.
\<close>

abbreviation (input) CHAR_plus :: byte where "CHAR_plus \<equiv> 0x2B"
abbreviation (input) CHAR_hash :: byte where "CHAR_hash \<equiv> 0x23"
abbreviation (input) CHAR_slash :: byte where "CHAR_slash \<equiv> 0x2F"
abbreviation (input) CHAR_dollar :: byte where "CHAR_dollar \<equiv> 0x24"

subsection \<open>Operations\<close>

definition LittleEndian_Uint64 :: "byte list \<Rightarrow> u64" where
  "LittleEndian_Uint64 b =
     ucast (b ! 0) OR push_bit 8 (ucast (b ! 1)) OR push_bit 16 (ucast (b ! 2)) OR
     push_bit 24 (ucast (b ! 3)) OR push_bit 32 (ucast (b ! 4)) OR push_bit 40 (ucast (b ! 5)) OR
     push_bit 48 (ucast (b ! 6)) OR push_bit 56 (ucast (b ! 7))"

text \<open>\<open>utf8.Valid\<close>: the well-formed byte sequences of the Unicode standard (no surrogates, no
  overlong forms, nothing above U+10FFFF).\<close>

definition utf8_cont :: "byte \<Rightarrow> bool" where
  "utf8_cont c = (0x80 \<le> c \<and> c \<le> 0xBF)"

fun utf8_Valid :: "byte list \<Rightarrow> bool" where
  "utf8_Valid [] = True"
| "utf8_Valid (b # r) =
     (if b < 0x80 then utf8_Valid r
      else if 0xC2 \<le> b \<and> b \<le> 0xDF then
        (case r of c # r' \<Rightarrow> utf8_cont c \<and> utf8_Valid r' | _ \<Rightarrow> False)
      else if 0xE0 \<le> b \<and> b \<le> 0xEF then
        (case r of
           c # d # r' \<Rightarrow>
             (if b = 0xE0 then 0xA0 \<le> c \<and> c \<le> 0xBF
              else if b = 0xED then 0x80 \<le> c \<and> c \<le> 0x9F
              else utf8_cont c) \<and> utf8_cont d \<and> utf8_Valid r'
         | _ \<Rightarrow> False)
      else if 0xF0 \<le> b \<and> b \<le> 0xF4 then
        (case r of
           c # d # e # r' \<Rightarrow>
             (if b = 0xF0 then 0x90 \<le> c \<and> c \<le> 0xBF
              else if b = 0xF4 then 0x80 \<le> c \<and> c \<le> 0x8F
              else utf8_cont c) \<and> utf8_cont d \<and> utf8_cont e \<and> utf8_Valid r'
         | _ \<Rightarrow> False)
      else False)"

abbreviation (input) screen_ones :: u64 where "screen_ones \<equiv> 0x0101010101010101"
abbreviation (input) screen_highs :: u64 where "screen_highs \<equiv> 0x8080808080808080"
abbreviation (input) screen_plus :: u64 where "screen_plus \<equiv> 0x2B2B2B2B2B2B2B2B"
abbreviation (input) screen_hash :: u64 where "screen_hash \<equiv> 0x2323232323232323"

definition utf8_flagged :: "u64 \<Rightarrow> bool" where
  "utf8_flagged x = (((x - screen_ones) OR x) AND screen_highs \<noteq> 0)"

definition topic_flagged :: "u64 \<Rightarrow> bool" where
  "topic_flagged x =
     (let p = x XOR screen_plus; h = x XOR screen_hash
      in ((x - screen_ones) OR x OR (p - screen_ones) OR (h - screen_ones)) AND screen_highs \<noteq> 0)"

text \<open>The loop \<open>for ; i+8 <= len(b); i += 8\<close>: what is left when it ends or breaks.\<close>

function skip_words :: "(u64 \<Rightarrow> bool) \<Rightarrow> byte list \<Rightarrow> byte list" where
  "skip_words flagged b =
     (if 8 \<le> length b then
        if flagged (LittleEndian_Uint64 b) then b else skip_words flagged (drop 8 b)
      else b)"
  by pat_completeness auto
termination
  by (relation "measure (\<lambda>(_, b). length b)") auto

declare skip_words.simps [simp del]

fun validUTF8Bytes_loop :: "byte list \<Rightarrow> bool" where
  "validUTF8Bytes_loop [] = True"
| "validUTF8Bytes_loop (c # r) =
     (if c = 0 then False
      else if c \<ge> 0x80 then utf8_Valid (c # r) \<and> 0 \<notin> set (c # r)
      else validUTF8Bytes_loop r)"

definition validUTF8Bytes :: "byte list \<Rightarrow> bool" where
  "validUTF8Bytes b = validUTF8Bytes_loop (skip_words utf8_flagged b)"

definition validUTF8 :: "gostring \<Rightarrow> bool" where
  "validUTF8 s = validUTF8Bytes s"

text \<open>\<open>bytes.ContainsAny(b, "+#")\<close> and \<open>strings.ContainsAny(b, "+#")\<close>.\<close>

definition ContainsWildcard :: "byte list \<Rightarrow> bool" where
  "ContainsWildcard b = list_ex (\<lambda>c. c = CHAR_plus \<or> c = CHAR_hash) b"

fun scanTopicName_loop :: "byte list \<Rightarrow> bool \<Rightarrow> bool \<times> bool" where
  "scanTopicName_loop [] wildcard = (True, wildcard)"
| "scanTopicName_loop (c # r) wildcard =
     (if c = CHAR_plus \<or> c = CHAR_hash then scanTopicName_loop r True
      else if c = 0 then (False, wildcard)
      else if c \<ge> 0x80 then
        (utf8_Valid (c # r) \<and> 0 \<notin> set (c # r), wildcard \<or> ContainsWildcard (c # r))
      else scanTopicName_loop r wildcard)"

definition scanTopicName :: "gostring \<Rightarrow> bool \<times> bool" where
  "scanTopicName s = scanTopicName_loop (skip_words topic_flagged s) False"

subsection \<open>The contract of a screen\<close>

definition byte_of :: "u64 \<Rightarrow> nat \<Rightarrow> byte" where
  "byte_of x k = ucast (drop_bit (8 * k) x)"

lemma byte_of_and: "byte_of (x AND y) k = byte_of x k AND byte_of y k"
  by (rule bit_word_eqI) (auto simp: byte_of_def bit_simps)

lemma byte_of_or: "byte_of (x OR y) k = byte_of x k OR byte_of y k"
  by (rule bit_word_eqI) (auto simp: byte_of_def bit_simps)

lemma byte_of_xor: "byte_of (x XOR y) k = byte_of x k XOR byte_of y k"
  by (rule bit_word_eqI) (auto simp: byte_of_def bit_simps)

lemma less_8_cases: "(k :: nat) < 8 \<Longrightarrow> k \<in> {0, 1, 2, 3, 4, 5, 6, 7}"
  by auto

lemma byte_of_push:
  assumes "j < 8" and "k < 8"
  shows "byte_of (push_bit (8 * j) (ucast b)) k = (if j = k then b else 0)"
proof (rule bit_word_eqI)
  fix n assume "n < LENGTH(8)"
  then have n: "n < 8" by simp
  have high: "\<not> bit b (8 * k + n - 8 * j)" if "j < k"
    using that by (intro notI) (auto dest!: bit_imp_le_length)
  have "bit (byte_of (push_bit (8 * j) (ucast b)) k) n \<longleftrightarrow> 8 * j \<le> 8 * k + n \<and> bit b (8 * k + n - 8 * j)"
    using assms n by (auto simp: byte_of_def bit_simps)
  also have "\<dots> \<longleftrightarrow> j = k \<and> bit b n"
    using n high by (cases j k rule: linorder_cases) auto
  finally show "bit (byte_of (push_bit (8 * j) (ucast b)) k) n \<longleftrightarrow> bit (if j = k then b else 0) n"
    by simp
qed

lemma byte_of_Uint64:
  assumes "k < 8"
  shows "byte_of (LittleEndian_Uint64 b) k = b ! k"
proof -
  have "LittleEndian_Uint64 b =
     push_bit (8 * 0) (ucast (b ! 0)) OR push_bit (8 * 1) (ucast (b ! 1)) OR
     push_bit (8 * 2) (ucast (b ! 2)) OR push_bit (8 * 3) (ucast (b ! 3)) OR
     push_bit (8 * 4) (ucast (b ! 4)) OR push_bit (8 * 5) (ucast (b ! 5)) OR
     push_bit (8 * 6) (ucast (b ! 6)) OR push_bit (8 * 7) (ucast (b ! 7))"
    by (simp add: LittleEndian_Uint64_def)
  then have "byte_of (LittleEndian_Uint64 b) k =
     (if 0 = k then b ! 0 else 0) OR (if 1 = k then b ! 1 else 0) OR (if 2 = k then b ! 2 else 0) OR
     (if 3 = k then b ! 3 else 0) OR (if 4 = k then b ! 4 else 0) OR (if 5 = k then b ! 5 else 0) OR
     (if 6 = k then b ! 6 else 0) OR (if 7 = k then b ! 7 else 0)"
    using assms by (simp only: byte_of_or byte_of_push)
  then show ?thesis
    using less_8_cases [OF assms] by auto
qed

lemma unat_byte_of: "unat (byte_of x k) = unat x div 256 ^ k mod 256"
proof -
  have "(2 :: nat) ^ (8 * k) = 256 ^ k" by (simp add: power_mult)
  moreover have "unat (byte_of x k) = drop_bit (8 * k) (unat x) mod 256"
    by (simp add: byte_of_def unsigned_ucast_eq take_bit_eq_mod unat_drop_bit_eq)
  ultimately show ?thesis by (simp add: drop_bit_eq_div)
qed

lemma byte_of_masks:
  assumes "k < 8"
  shows "byte_of screen_ones k = 1" "byte_of screen_highs k = 0x80"
    "byte_of screen_plus k = CHAR_plus" "byte_of screen_hash k = CHAR_hash"
proof -
  have "unat (byte_of screen_ones k) = 1" "unat (byte_of screen_highs k) = 0x80"
    "unat (byte_of screen_plus k) = 0x2B" "unat (byte_of screen_hash k) = 0x23"
    using less_8_cases [OF assms] by (auto simp: unat_byte_of)
  then show "byte_of screen_ones k = 1" "byte_of screen_highs k = 0x80"
    "byte_of screen_plus k = CHAR_plus" "byte_of screen_hash k = CHAR_hash"
    by (simp_all add: word_unat_eq_iff)
qed

text \<open>Adding without a carry out of any digit below \<open>k\<close>.\<close>

lemma no_carry:
  fixes a b :: nat
  assumes "\<And>j. j < k \<Longrightarrow> a div 256 ^ j mod 256 + b div 256 ^ j mod 256 < 256"
  shows "(a + b) div 256 ^ k = a div 256 ^ k + b div 256 ^ k"
  using assms
proof (induction k)
  case (Suc k)
  have step: "(p + q) div 256 = p div 256 + q div 256" if "p mod 256 + q mod 256 < 256" for p q :: nat
    using that div_add1_eq [of p q 256] by simp
  have "(a + b) div 256 ^ Suc k = (a + b) div 256 ^ k div 256"
    by (simp only: power_Suc2 div_mult2_eq)
  also have "\<dots> = (a div 256 ^ k + b div 256 ^ k) div 256"
    using Suc by simp
  also have "\<dots> = a div 256 ^ k div 256 + b div 256 ^ k div 256"
    using Suc.prems by (intro step) simp
  also have "\<dots> = a div 256 ^ Suc k + b div 256 ^ Suc k"
    by (simp only: power_Suc2 div_mult2_eq)
  finally show ?case .
qed simp

lemma byte_and_high: "b AND 0x80 = (0 :: byte) \<Longrightarrow> unat b < 128"
  using high_bit_byte by simp

lemma high_clear_bytes: "x AND screen_highs = 0 \<Longrightarrow> k < 8 \<Longrightarrow> unat (byte_of x k) < 128"
  using byte_of_and [of x screen_highs k]
  by (intro byte_and_high) (simp add: byte_of_masks, simp add: byte_of_def)

text \<open>If no byte of \<open>y - 0x0101..01\<close> has its high bit set, then adding back the ones carries
  nowhere, so every byte of \<open>y\<close> is one more than the byte below it was: none is zero.\<close>

lemma borrow_free_bytes:
  assumes "(y - screen_ones) AND screen_highs = 0" and "k < 8"
  shows "byte_of y k \<noteq> 0"
proof -
  define z where "z = y - screen_ones"
  let ?o = "0x0101010101010101 :: nat"
  have ones: "?o div 256 ^ j mod 256 = 1" if "j < 8" for j
    using less_8_cases [OF that] by auto
  have digit: "unat z div 256 ^ j mod 256 < 128" if "j < 8" for j
    using high_clear_bytes [of z j] assms(1) that by (simp add: z_def unat_byte_of)
  have nc: "(unat z + ?o) div 256 ^ j = unat z div 256 ^ j + ?o div 256 ^ j" if "j \<le> 8" for j
  proof (rule no_carry)
    fix i assume "i < j"
    then have "i < 8" using that by simp
    then show "unat z div 256 ^ i mod 256 + ?o div 256 ^ i mod 256 < 256"
      using digit [of i] ones [of i] by linarith
  qed
  have "unat z < 256 ^ 8"
    using unsigned_less [of z] by simp
  then have "(unat z + ?o) div 256 ^ 8 = 0"
    using nc [of 8] by simp
  then have "unat z + ?o < 2 ^ 64"
    by (simp add: div_eq_0_iff)
  then have y: "unat y = unat z + ?o"
    using unat_add_lem [of z screen_ones] by (simp add: z_def)
  have "unat (byte_of y k) = (unat z div 256 ^ k + ?o div 256 ^ k) mod 256"
    using nc [of k] assms(2) by (simp add: unat_byte_of y)
  also have "\<dots> = (unat z div 256 ^ k mod 256 + 1) mod 256"
    using ones [OF assms(2)] by (metis mod_add_eq)
  also have "\<dots> \<noteq> 0"
    using digit [OF assms(2)] by simp
  finally show ?thesis by (metis unat_0)
qed

locale byte_screen =
  fixes flagged :: "u64 \<Rightarrow> bool" and bad :: "byte \<Rightarrow> bool"
  assumes clean: "\<not> flagged x \<Longrightarrow> k < 8 \<Longrightarrow> \<not> bad (byte_of x k)"
begin

lemma clean_word:
  assumes "8 \<le> length b" and "\<not> flagged (LittleEndian_Uint64 b)"
  shows "list_all (\<lambda>c. \<not> bad c) (take 8 b)"
  using assms clean [OF assms(2)] by (auto simp: list_all_length byte_of_Uint64)

lemma skip_words_clean:
  "\<exists>n. skip_words flagged b = drop n b \<and> n \<le> length b \<and> list_all (\<lambda>c. \<not> bad c) (take n b)"
proof (induction b rule: measure_induct_rule [of length])
  case (less b)
  show ?case
  proof (cases "8 \<le> length b \<and> \<not> flagged (LittleEndian_Uint64 b)")
    case True
    then obtain n where n: "skip_words flagged (drop 8 b) = drop n (drop 8 b)"
        "n \<le> length (drop 8 b)" "list_all (\<lambda>c. \<not> bad c) (take n (drop 8 b))"
      using less.IH [of "drop 8 b"] by fastforce
    have "skip_words flagged b = drop (8 + n) b"
      using True n(1) by (simp add: skip_words.simps [of _ b] add.commute)
    moreover have "list_all (\<lambda>c. \<not> bad c) (take (8 + n) b)"
      using clean_word True n(3) by (simp add: take_add)
    ultimately show ?thesis
      using True n(2) by (intro exI [of _ "8 + n"]) auto
  next
    case False
    then have "skip_words flagged b = b"
      by (auto simp: skip_words.simps [of _ b])
    then show ?thesis by (intro exI [of _ 0]) simp
  qed
qed

text \<open>A scan that passes over the bytes that are not bad may start behind the screen.\<close>

lemma scan_skip:
  assumes "\<And>c r. \<not> bad c \<Longrightarrow> scan (c # r) = scan r"
  shows "scan (skip_words flagged b) = scan b"
proof -
  have pass: "scan (xs @ ys) = scan ys" if "list_all (\<lambda>c. \<not> bad c) xs" for xs ys
    using that by (induction xs) (simp_all add: assms)
  obtain n where "skip_words flagged b = drop n b" "list_all (\<lambda>c. \<not> bad c) (take n b)"
    using skip_words_clean by blast
  then show ?thesis
    using pass [of "take n b" "drop n b"] by simp
qed

end

interpretation utf8_screen: byte_screen utf8_flagged "\<lambda>c. c = 0 \<or> c \<ge> 0x80"
proof unfold_locales
  fix x :: u64 and k :: nat
  assume "\<not> utf8_flagged x" and k: "k < 8"
  then have "(x - screen_ones) AND screen_highs = 0" "x AND screen_highs = 0"
    by (auto simp: utf8_flagged_def bit.conj_disj_distrib2 or_eq_0_iff)
  then show "\<not> (byte_of x k = 0 \<or> byte_of x k \<ge> 0x80)"
    using borrow_free_bytes high_clear_bytes k by (auto simp: word_le_nat_alt not_le)
qed

interpretation topic_screen: byte_screen topic_flagged
  "\<lambda>c. c = 0 \<or> c \<ge> 0x80 \<or> c = CHAR_plus \<or> c = CHAR_hash"
proof unfold_locales
  fix x :: u64 and k :: nat
  assume "\<not> topic_flagged x" and k: "k < 8"
  then have x: "(x - screen_ones) AND screen_highs = 0" "x AND screen_highs = 0"
    and p: "((x XOR screen_plus) - screen_ones) AND screen_highs = 0"
    and h: "((x XOR screen_hash) - screen_ones) AND screen_highs = 0"
    by (auto simp: topic_flagged_def Let_def bit.conj_disj_distrib2 or_eq_0_iff)
  have "byte_of x k \<noteq> CHAR_plus"
    using borrow_free_bytes [OF p k] k by (auto simp: byte_of_xor byte_of_masks)
  moreover have "byte_of x k \<noteq> CHAR_hash"
    using borrow_free_bytes [OF h k] k by (auto simp: byte_of_xor byte_of_masks)
  ultimately show "\<not> (byte_of x k = 0 \<or> byte_of x k \<ge> 0x80 \<or> byte_of x k = CHAR_plus \<or> byte_of x k = CHAR_hash)"
    using borrow_free_bytes [OF x(1) k] high_clear_bytes [OF x(2) k] by (auto simp: word_le_nat_alt not_le)
qed

subsection \<open>Equivalence with the plain checks\<close>

definition utf8_ok :: "byte list \<Rightarrow> bool" where
  "utf8_ok b = (utf8_Valid b \<and> 0 \<notin> set b)"

lemma validUTF8Bytes_loop_eq: "validUTF8Bytes_loop b = utf8_ok b"
  by (induction b) (auto simp: utf8_ok_def not_le)

lemma validUTF8Bytes_eq: "validUTF8Bytes b = utf8_ok b"
  unfolding validUTF8Bytes_def
  using utf8_screen.scan_skip [where scan = validUTF8Bytes_loop] by (simp add: validUTF8Bytes_loop_eq utf8_ok_def not_le)

lemma validUTF8_eq: "validUTF8 s = utf8_ok s"
  by (simp add: validUTF8_def validUTF8Bytes_eq)

lemma scanTopicName_loop_eq:
  "fst (scanTopicName_loop b w) = utf8_ok b"
  "utf8_ok b \<Longrightarrow> snd (scanTopicName_loop b w) = (w \<or> ContainsWildcard b)"
  by (induction b arbitrary: w) (auto simp: utf8_ok_def ContainsWildcard_def not_le)

lemma scanTopicName_eq:
  "fst (scanTopicName s) = validUTF8 s"
  "validUTF8 s \<Longrightarrow> snd (scanTopicName s) = ContainsWildcard s"
proof -
  have "scanTopicName s = scanTopicName_loop s False"
    unfolding scanTopicName_def
    by (rule topic_screen.scan_skip [where scan = "\<lambda>b. scanTopicName_loop b False"]) (auto simp: not_le)
  then show "fst (scanTopicName s) = validUTF8 s"
    "validUTF8 s \<Longrightarrow> snd (scanTopicName s) = ContainsWildcard s"
    by (simp_all add: scanTopicName_loop_eq validUTF8_eq)
qed

lemma utf8_ok_Nil [simp]: "utf8_ok []"
  by (simp add: utf8_ok_def)

lemma ascii_utf8_ok: "list_all (\<lambda>c. 0 < c \<and> c < 0x80) b \<Longrightarrow> utf8_ok b"
  by (induction b) (auto simp: utf8_ok_def)

end
