(* ===== verification/Topics.thy ===== *)
theory Topics
  imports Utf8
begin

text \<open>
  Topic names and topic filters (\<open>ValidTopicName\<close>, \<open>ValidTopicFilter\<close> and \<open>IsSharedFilter\<close> of
  \<open>wire/validate.go\<close>), with the functions of package \<open>strings\<close> they use. A returned \<open>error\<close> is
  \<open>Err\<close>, \<open>nil\<close> is \<open>Ok ()\<close>.
\<close>

subsection \<open>Package strings\<close>

fun Split :: "byte \<Rightarrow> byte list \<Rightarrow> byte list list" where
  "Split sep [] = [[]]"
| "Split sep (c # r) =
     (if c = sep then [] # Split sep r
      else case Split sep r of l # ls \<Rightarrow> (c # l) # ls | [] \<Rightarrow> [[c]])"

definition Cut :: "byte list \<Rightarrow> byte \<Rightarrow> byte list \<times> byte list \<times> bool" where
  "Cut s sep =
     (case dropWhile (\<lambda>c. c \<noteq> sep) s of
        [] \<Rightarrow> (s, [], False)
      | _ # r \<Rightarrow> (takeWhile (\<lambda>c. c \<noteq> sep) s, r, True))"

definition HasPrefix :: "byte list \<Rightarrow> byte list \<Rightarrow> bool" where
  "HasPrefix s pre = (take (length pre) s = pre)"

definition CutPrefix :: "byte list \<Rightarrow> byte list \<Rightarrow> byte list option" where
  "CutPrefix s pre = (if HasPrefix s pre then Some (drop (length pre) s) else None)"

subsection \<open>Operations\<close>

definition share_prefix :: "byte list" where
  "share_prefix = [0x24, 0x73, 0x68, 0x61, 0x72, 0x65, 0x2F]"

definition ValidTopicName :: "gostring \<Rightarrow> unit gores" where
  "ValidTopicName nm =
     (if length nm > 0xffff then Err (Errorf [ErrStringTooLong])
      else if \<not> validUTF8 nm then Err (Errorf [ErrInvalidTopic])
      else if ContainsWildcard nm then Err (Errorf [ErrInvalidTopic])
      else Ok ())"

text \<open>The loop over the levels; \<open>levels[i:]\<close> is the argument, so \<open>i\<close> is the last index when
  nothing follows.\<close>

fun check_levels :: "byte list list \<Rightarrow> unit gores" where
  "check_levels [] = Ok ()"
| "check_levels (l # ls) =
     (if l = [CHAR_hash] \<and> ls \<noteq> [] then Err (Errorf [ErrInvalidTopic])
      else if l \<noteq> [CHAR_hash] \<and> CHAR_hash \<in> set l then Err (Errorf [ErrInvalidTopic])
      else if l \<noteq> [CHAR_plus] \<and> CHAR_plus \<in> set l then Err (Errorf [ErrInvalidTopic])
      else check_levels ls)"

definition ValidTopicFilter :: "gostring \<Rightarrow> unit gores" where
  "ValidTopicFilter flt =
     (if flt = [] then Err (Errorf [ErrInvalidTopic])
      else if length flt > 0xffff then Err (Errorf [ErrStringTooLong])
      else if \<not> validUTF8 flt then Err (Errorf [ErrInvalidTopic])
      else case CutPrefix flt share_prefix of
             Some rest \<Rightarrow>
               (case Cut rest CHAR_slash of (nm, sub, found) \<Rightarrow>
                  if \<not> found \<or> nm = [] \<or> ContainsWildcard nm then Err (Errorf [ErrInvalidTopic])
                  else if sub = [] then Err (Errorf [ErrInvalidTopic])
                  else check_levels (Split CHAR_slash sub))
           | None \<Rightarrow> check_levels (Split CHAR_slash flt))"

definition IsSharedFilter :: "gostring \<Rightarrow> bool" where
  "IsSharedFilter flt = HasPrefix flt share_prefix"

subsection \<open>Specification\<close>

text \<open>Section 4.7 of the standard, on the levels of a filter.\<close>

definition filter_levels_ok :: "byte list list \<Rightarrow> bool" where
  "filter_levels_ok ls =
     (\<forall>i < length ls.
        (CHAR_hash \<in> set (ls ! i) \<longrightarrow> ls ! i = [CHAR_hash] \<and> i = length ls - 1) \<and>
        (CHAR_plus \<in> set (ls ! i) \<longrightarrow> ls ! i = [CHAR_plus]))"

definition filter_text_ok :: "byte list \<Rightarrow> bool" where
  "filter_text_ok flt = (flt \<noteq> [] \<and> filter_levels_ok (Split CHAR_slash flt))"

definition shared_split :: "byte list \<Rightarrow> (byte list \<times> byte list) \<Rightarrow> bool" where
  "shared_split flt p =
     (case p of (nm, sub) \<Rightarrow>
        flt = share_prefix @ nm @ CHAR_slash # sub \<and> nm \<noteq> [] \<and> CHAR_slash \<notin> set nm \<and>
        CHAR_hash \<notin> set nm \<and> CHAR_plus \<notin> set nm)"

definition valid_filter :: "byte list \<Rightarrow> bool" where
  "valid_filter flt =
     (length flt \<le> 65535 \<and> utf8_ok flt \<and>
      (if IsSharedFilter flt then \<exists>nm sub. shared_split flt (nm, sub) \<and> filter_text_ok sub
       else filter_text_ok flt))"

subsection \<open>Lemmas\<close>

lemma Split_ne [simp]: "Split sep s \<noteq> []"
  by (induction s) (auto split: list.splits)

text \<open>\<open>strings.Join\<close> undoes \<open>strings.Split\<close>, and no level holds the separator.\<close>

fun join :: "byte \<Rightarrow> byte list list \<Rightarrow> byte list" where
  "join sep [] = []"
| "join sep [l] = l"
| "join sep (l # ls) = l @ sep # join sep ls"

lemma join_Split: "join sep (Split sep s) = s"
proof (induction s)
  case (Cons c r)
  obtain l ls where r: "Split sep r = l # ls" by (cases "Split sep r") auto
  show ?case
    using Cons by (cases ls) (auto simp: r)
qed simp

lemma Split_levels: "l \<in> set (Split sep s) \<Longrightarrow> sep \<notin> set l"
  by (induction s arbitrary: l) (auto split: list.splits if_splits)

lemma Split_nosep: "sep \<notin> set l \<Longrightarrow> Split sep l = [l]"
  by (induction l) auto

lemma Split_level: "sep \<notin> set l \<Longrightarrow> Split sep (l @ sep # r) = l # Split sep r"
  by (induction l) auto

lemma Split_join:
  "ls \<noteq> [] \<Longrightarrow> (\<And>l. l \<in> set ls \<Longrightarrow> sep \<notin> set l) \<Longrightarrow> Split sep (join sep ls) = ls"
  by (induction sep ls rule: join.induct) (auto simp: Split_nosep Split_level)

lemma ContainsWildcard_iff: "ContainsWildcard b \<longleftrightarrow> CHAR_plus \<in> set b \<or> CHAR_hash \<in> set b"
  by (auto simp: ContainsWildcard_def list_ex_iff)

lemma check_levels_Ok: "check_levels ls = Ok () \<longleftrightarrow> filter_levels_ok ls"
proof (induction ls)
  case (Cons l ls)
  have "filter_levels_ok (l # ls) \<longleftrightarrow>
    (CHAR_hash \<in> set l \<longrightarrow> l = [CHAR_hash] \<and> ls = []) \<and> (CHAR_plus \<in> set l \<longrightarrow> l = [CHAR_plus]) \<and> filter_levels_ok ls"
    unfolding filter_levels_ok_def length_Cons All_less_Suc2 by (auto simp: less_Suc_eq_0_disj)
  then show ?case
    using Cons by auto
qed (simp add: filter_levels_ok_def)

lemma check_levels_cases: "check_levels ls = Ok () \<or> check_levels ls = Err (Errorf [ErrInvalidTopic])"
  by (induction ls) auto

lemma ValidTopicName_Ok:
  "ValidTopicName nm = Ok () \<longleftrightarrow> length nm \<le> 65535 \<and> utf8_ok nm \<and> \<not> ContainsWildcard nm"
  by (auto simp: ValidTopicName_def validUTF8_eq)

lemma Cut_found: "Cut s sep = (a, b, True) \<longleftrightarrow> s = a @ sep # b \<and> sep \<notin> set a"
proof
  assume "Cut s sep = (a, b, True)"
  then obtain x where d: "dropWhile (\<lambda>c. c \<noteq> sep) s = x # b" and a: "a = takeWhile (\<lambda>c. c \<noteq> sep) s"
    by (auto simp: Cut_def split: list.splits)
  then show "s = a @ sep # b \<and> sep \<notin> set a"
    by (auto simp: dropWhile_eq_Cons_conv dest: set_takeWhileD)
next
  assume "s = a @ sep # b \<and> sep \<notin> set a"
  moreover from this have "\<forall>c\<in>set a. c \<noteq> sep" by auto
  ultimately show "Cut s sep = (a, b, True)"
    by (simp add: Cut_def dropWhile_append2 takeWhile_append2)
qed

lemma Cut_cases: "(\<exists>a b. Cut s sep = (a, b, True)) \<or> (\<exists>a b. Cut s sep = (a, b, False))"
  by (auto simp: Cut_def split: list.splits)

lemma share_prefix_append [simp]:
  "HasPrefix (share_prefix @ r) share_prefix" "CutPrefix (share_prefix @ r) share_prefix = Some r"
  by (simp_all add: HasPrefix_def CutPrefix_def)

lemma CutPrefix_Some: "CutPrefix s pre = Some r \<longleftrightarrow> s = pre @ r"
  unfolding CutPrefix_def HasPrefix_def by (auto simp: append_eq_conv_conj) (metis append_take_drop_id)

lemma IsSharedFilter_iff: "IsSharedFilter flt \<longleftrightarrow> CutPrefix flt share_prefix \<noteq> None"
  by (simp add: IsSharedFilter_def CutPrefix_def)

lemma ValidTopicFilter_shared:
  assumes "CutPrefix flt share_prefix = Some rest" and "length flt \<le> 65535" and "utf8_ok flt"
  shows "ValidTopicFilter flt = Ok () \<longleftrightarrow> (\<exists>nm sub. shared_split flt (nm, sub) \<and> filter_text_ok sub)"
proof -
  have flt: "flt = share_prefix @ rest" and ne: "flt \<noteq> []"
    using assms(1) by (auto simp: CutPrefix_Some share_prefix_def)
  have split: "shared_split flt (nm, sub) \<longleftrightarrow> Cut rest CHAR_slash = (nm, sub, True) \<and> nm \<noteq> [] \<and> \<not> ContainsWildcard nm"
    for nm sub
    by (auto simp: shared_split_def flt Cut_found ContainsWildcard_iff)
  obtain nm sub found where cut: "Cut rest CHAR_slash = (nm, sub, found)"
    by (cases "Cut rest CHAR_slash")
  show ?thesis
    using assms ne
    by (cases found) (auto simp: ValidTopicFilter_def cut split validUTF8_eq filter_text_ok_def check_levels_Ok)
qed

lemma ValidTopicFilter_Ok: "ValidTopicFilter flt = Ok () \<longleftrightarrow> valid_filter flt"
proof (cases "length flt \<le> 65535 \<and> utf8_ok flt")
  case True
  show ?thesis
  proof (cases "CutPrefix flt share_prefix")
    case None
    then show ?thesis
      using True
      by (auto simp: valid_filter_def IsSharedFilter_iff ValidTopicFilter_def validUTF8_eq check_levels_Ok filter_text_ok_def)
  next
    case (Some rest)
    then show ?thesis
      using True ValidTopicFilter_shared [OF Some] by (simp add: valid_filter_def IsSharedFilter_iff)
  qed
next
  case False
  then show ?thesis
    by (auto simp: ValidTopicFilter_def valid_filter_def validUTF8_eq)
qed

lemma ValidTopicFilter_error:
  assumes "ValidTopicFilter flt = Err e"
  shows "e = Errorf [ErrInvalidTopic] \<or> e = Errorf [ErrStringTooLong] \<and> 65535 < length flt"
proof -
  have levels: "check_levels ls = Err e \<Longrightarrow> e = Errorf [ErrInvalidTopic]" for ls
    using check_levels_cases [of ls] by auto
  show ?thesis
    using assms by (auto simp: ValidTopicFilter_def dest: levels split: if_splits option.splits prod.splits)
qed

lemma ValidTopicFilter_not_Panic [simp]: "ValidTopicFilter flt \<noteq> Panic"
proof -
  have "check_levels ls \<noteq> Panic" for ls
    using check_levels_cases [of ls] by auto
  then show ?thesis
    by (auto simp: ValidTopicFilter_def split: option.splits prod.splits)
qed

lemma ValidTopicName_not_Panic [simp]: "ValidTopicName nm \<noteq> Panic"
  by (simp add: ValidTopicName_def)

end
