(* ===== verification/Validate.thy ===== *)
theory Validate
  imports Props Topics
begin

text \<open>
  The checks every packet shares (\<open>wire/validate.go\<close>): the fixed header, the property allow-lists
  and \<open>validateProps\<close>, the reason-code tables, and the field checks of the encoders. A property
  mask is a \<open>uint64\<close> with the bit of each identifier set, built and tested with Go's shifts.

  The specification of \<open>validateProps\<close> is a condition on the list of properties that the section
  encodes: all identifiers allowed, none but the repeatable ones twice, every value in its range.
\<close>

subsection \<open>Fixed header\<close>

definition fixedFlags :: "PacketType \<Rightarrow> byte" where
  "fixedFlags t = (if t = PUBREL \<or> t = SUBSCRIBE \<or> t = UNSUBSCRIBE then 0x02 else 0)"

definition checkHeader :: "PacketType \<Rightarrow> byte \<Rightarrow> u32 \<Rightarrow> bool \<Rightarrow> PacketError option \<times> bool" where
  "checkHeader t flags remaining minimal =
     (if (t = PINGREQ \<or> t = PINGRESP) \<and> remaining \<noteq> 0 then (Some (malformed t), False)
      else if t \<noteq> PUBLISH \<and> t \<ge> CONNECT \<and> t \<le> AUTH \<and> flags \<noteq> fixedFlags t
        then (Some (malformed t), t = PINGRESP)
      else if \<not> minimal then (Some (malformed t), True)
      else (None, False))"

subsection \<open>Property masks\<close>

fun propMask :: "byte list \<Rightarrow> u64" where
  "propMask [] = 0"
| "propMask (pid # pids) = push_bit (unat pid) 1 OR propMask pids"

definition has_bit :: "u64 \<Rightarrow> byte \<Rightarrow> bool" where
  "has_bit m pid = (m AND push_bit (unat pid) 1 \<noteq> 0)"

definition userProp :: u64 where
  "userProp = propMask [PropUserProperty]"

definition reasonProps :: u64 where
  "reasonProps = propMask [PropReasonString, PropUserProperty]"

definition publishProps :: u64 where
  "publishProps = propMask [PropPayloadFormat, PropMessageExpiryInterval, PropContentType,
     PropResponseTopic, PropCorrelationData, PropSubscriptionIdentifier, PropTopicAlias, PropUserProperty]"

definition willProps :: u64 where
  "willProps = propMask [PropWillDelayInterval, PropPayloadFormat, PropMessageExpiryInterval,
     PropContentType, PropResponseTopic, PropCorrelationData, PropUserProperty]"

definition allowedProps :: "PacketType \<Rightarrow> u64" where
  "allowedProps t =
     (if t = CONNECT then propMask [PropSessionExpiryInterval, PropAuthMethod, PropAuthData,
        PropRequestProblemInfo, PropRequestResponseInfo, PropReceiveMaximum, PropTopicAliasMaximum,
        PropUserProperty, PropMaximumPacketSize]
      else if t = CONNACK then propMask [PropSessionExpiryInterval, PropAssignedClientID,
        PropServerKeepAlive, PropAuthMethod, PropAuthData, PropResponseInformation,
        PropServerReference, PropReasonString, PropReceiveMaximum, PropTopicAliasMaximum,
        PropMaximumQoS, PropRetainAvailable, PropUserProperty, PropMaximumPacketSize,
        PropWildcardSubAvailable, PropSubscriptionIDAvailable, PropSharedSubAvailable]
      else if t = PUBLISH then publishProps
      else if t = PUBACK \<or> t = PUBREC \<or> t = PUBREL \<or> t = PUBCOMP then reasonProps
      else if t = SUBSCRIBE then propMask [PropSubscriptionIdentifier, PropUserProperty]
      else if t = SUBACK then reasonProps
      else if t = UNSUBSCRIBE then userProp
      else if t = UNSUBACK then reasonProps
      else if t = DISCONNECT then propMask [PropSessionExpiryInterval, PropServerReference,
        PropReasonString, PropUserProperty]
      else if t = AUTH then propMask [PropAuthMethod, PropAuthData, PropReasonString, PropUserProperty]
      else 0)"

definition booleanProps :: u64 where
  "booleanProps = propMask [PropPayloadFormat, PropRequestProblemInfo, PropRequestResponseInfo,
     PropMaximumQoS, PropRetainAvailable, PropWildcardSubAvailable, PropSubscriptionIDAvailable,
     PropSharedSubAvailable]"

definition stringProps :: u64 where
  "stringProps = propMask [PropContentType, PropResponseTopic, PropAssignedClientID, PropAuthMethod,
     PropResponseInformation, PropServerReference, PropReasonString]"

subsection \<open>validateProps\<close>

text \<open>The \<open>switch\<close> on one property's value.\<close>

definition checkPropValue :: "PacketType \<Rightarrow> byte \<Rightarrow> byte list \<Rightarrow> (PacketError, unit) res" where
  "checkPropValue t pid v =
     (if has_bit booleanProps pid then
        bindR (index v 0) (\<lambda>b. if b > 1 then Err (protocolError t) else Ok ())
      else if has_bit stringProps pid then
        bindR (slice_from v 2) (\<lambda>s.
          if \<not> validUTF8Bytes s then Err (malformed t)
          else if pid = PropResponseTopic \<and> ContainsWildcard s then Err (protocolError t)
          else Ok ())
      else if pid = PropUserProperty then
        bindR (index v 0) (\<lambda>v0. bindR (index v 1) (\<lambda>v1.
          let kn = unat v0 * 256 + unat v1 in
          bindR (slice v 2 (2 + kn)) (\<lambda>k. bindR (slice_from v (4 + kn)) (\<lambda>w.
            if \<not> validUTF8Bytes k \<or> \<not> validUTF8Bytes w then Err (malformed t) else Ok ()))))
      else if pid = PropTopicAlias then
        bindR (index v 0) (\<lambda>v0. bindR (index v 1) (\<lambda>v1.
          if v0 = 0 \<and> v1 = 0 then Err \<lparr>Packet = t, Reason = ReasonTopicAliasInvalid\<rparr> else Ok ()))
      else if pid = PropReceiveMaximum then
        bindR (index v 0) (\<lambda>v0. bindR (index v 1) (\<lambda>v1.
          if v0 = 0 \<and> v1 = 0 then Err (protocolError t) else Ok ()))
      else if pid = PropMaximumPacketSize then
        bindR (index v 0) (\<lambda>v0. bindR (index v 1) (\<lambda>v1. bindR (index v 2) (\<lambda>v2. bindR (index v 3) (\<lambda>v3.
          if v0 OR v1 OR v2 OR v3 = 0 then Err (protocolError t) else Ok ()))))
      else if pid = PropSubscriptionIdentifier then
        (case DecodeVarint v of
           Ok (n, _) \<Rightarrow> if n = 0 then Err (protocolError t) else Ok ()
         | Err _ \<Rightarrow> Err (protocolError t)
         | Panic \<Rightarrow> Panic)
      else Ok ())"

definition multiProp :: "PacketType \<Rightarrow> byte \<Rightarrow> bool" where
  "multiProp t pid = (pid = PropUserProperty \<or> (pid = PropSubscriptionIdentifier \<and> t = PUBLISH))"

function validateProps_loop :: "PacketType \<Rightarrow> u64 \<Rightarrow> u64 \<Rightarrow> byte list \<Rightarrow> (PacketError, unit) res" where
  "validateProps_loop t allowed seen [] = Ok ()"
| "validateProps_loop t allowed seen (pid # rest) =
     (if pid \<ge> 64 \<or> \<not> has_bit allowed pid then Err (malformed t)
      else case propValueSize pid rest of
             Err _ \<Rightarrow> Err (malformed t)
           | Panic \<Rightarrow> Panic
           | Ok sz \<Rightarrow>
               if sz > length rest then Err (malformed t)
               else if has_bit seen pid \<and> \<not> multiProp t pid then Err (protocolError t)
               else bindR (checkPropValue t pid (take sz rest)) (\<lambda>_.
                 validateProps_loop t allowed (seen OR push_bit (unat pid) 1) (drop sz rest)))"
  by pat_completeness auto
termination
  by (relation "measure (\<lambda>(_, _, _, r). length r)") auto

definition validateProps :: "PacketType \<Rightarrow> byte list \<Rightarrow> u64 \<Rightarrow> (PacketError, unit) res" where
  "validateProps t rw allowed = validateProps_loop t allowed 0 rw"

subsection \<open>Reason codes\<close>

definition reasonCodes :: "PacketType \<Rightarrow> ReasonCode list" where
  "reasonCodes t =
     (if t = CONNACK then [0x00, 0x80, 0x81, 0x82, 0x83, 0x84, 0x85, 0x86, 0x87, 0x88, 0x89, 0x8A,
        0x8C, 0x90, 0x95, 0x97, 0x99, 0x9A, 0x9B, 0x9C, 0x9D, 0x9F]
      else if t = PUBACK \<or> t = PUBREC then [0x00, 0x10, 0x80, 0x83, 0x87, 0x90, 0x91, 0x97, 0x99]
      else if t = PUBREL \<or> t = PUBCOMP then [0x00, 0x92]
      else if t = SUBACK then [0x00, 0x01, 0x02, 0x80, 0x83, 0x87, 0x8F, 0x91, 0x97, 0x9E, 0xA1, 0xA2]
      else if t = UNSUBACK then [0x00, 0x11, 0x80, 0x83, 0x87, 0x8F, 0x91]
      else if t = DISCONNECT then [0x00, 0x04, 0x80, 0x81, 0x82, 0x83, 0x87, 0x89, 0x8B, 0x8D, 0x8E,
        0x8F, 0x90, 0x93, 0x94, 0x95, 0x96, 0x97, 0x98, 0x99, 0x9A, 0x9B, 0x9C, 0x9D, 0x9E, 0x9F,
        0xA0, 0xA1, 0xA2]
      else if t = AUTH then [0x00, 0x18, 0x19]
      else [])"

definition checkReason :: "PacketType \<Rightarrow> ReasonCode \<Rightarrow> (PacketError, unit) res" where
  "checkReason t rc = (if rc \<in> set (reasonCodes t) then Ok () else Err (malformed t))"

subsection \<open>Field checks of the encoders\<close>

definition checkString :: "gostring \<Rightarrow> unit gores" where
  "checkString s =
     (if length s > 0xffff then Err (Errorf [ErrStringTooLong])
      else if \<not> validUTF8 s then Err (Errorf [ErrInvalidField])
      else Ok ())"

definition checkBinary :: "byte list \<Rightarrow> unit gores" where
  "checkBinary b = (if length b > 0xffff then Err (Errorf [ErrStringTooLong]) else Ok ())"

fun checkUserProps :: "UserProperty list \<Rightarrow> unit gores" where
  "checkUserProps [] = Ok ()"
| "checkUserProps (p # ps) =
     bindR (checkString (Key p)) (\<lambda>_. bindR (checkString (Value p)) (\<lambda>_. checkUserProps ps))"

definition checkBool :: "byte option \<Rightarrow> unit gores" where
  "checkBool b = (case b of Some v \<Rightarrow> if v > 1 then Err (Errorf [ErrInvalidField]) else Ok () | None \<Rightarrow> Ok ())"

definition checkReasonCode :: "PacketType \<Rightarrow> ReasonCode \<Rightarrow> unit gores" where
  "checkReasonCode t rc =
     (case checkReason t rc of Ok _ \<Rightarrow> Ok () | _ \<Rightarrow> Err (Errorf [ErrInvalidField]))"

subsection \<open>Specification of a valid property section\<close>

definition value_ok :: "PacketType \<Rightarrow> property \<Rightarrow> bool" where
  "value_ok t p = (case p of (pid, v) \<Rightarrow>
     (if pid \<in> {PropPayloadFormat, PropRequestProblemInfo, PropRequestResponseInfo, PropMaximumQoS,
                 PropRetainAvailable, PropWildcardSubAvailable, PropSubscriptionIDAvailable,
                 PropSharedSubAvailable} then hd v \<le> 1
      else if pid \<in> {PropContentType, PropResponseTopic, PropAssignedClientID, PropAuthMethod,
                 PropResponseInformation, PropServerReference, PropReasonString}
        then utf8_ok (drop 2 v) \<and> (pid = PropResponseTopic \<longrightarrow> \<not> ContainsWildcard (drop 2 v))
      else if pid = PropUserProperty
        then \<exists>k w. v = str16 k @ str16 w \<and> length k < 65536 \<and> length w < 65536 \<and> utf8_ok k \<and> utf8_ok w
      else if pid \<in> {PropTopicAlias, PropReceiveMaximum} then v \<noteq> [0, 0]
      else if pid = PropMaximumPacketSize then v \<noteq> [0, 0, 0, 0]
      else if pid = PropSubscriptionIdentifier then \<exists>n. n \<noteq> 0 \<and> DecodeVarint v = Ok (n, length v)
      else True))"

definition allowed_prop :: "u64 \<Rightarrow> property \<Rightarrow> bool" where
  "allowed_prop allowed p = (fst p < 64 \<and> bit allowed (unat (fst p)))"

definition single_props :: "PacketType \<Rightarrow> property list \<Rightarrow> byte list" where
  "single_props t ps = filter (\<lambda>pid. \<not> multiProp t pid) (map fst ps)"

definition props_valid :: "PacketType \<Rightarrow> u64 \<Rightarrow> property list \<Rightarrow> bool" where
  "props_valid t allowed ps =
     (wf_properties ps \<and> list_all (allowed_prop allowed) ps \<and> list_all (value_ok t) ps \<and>
      distinct (single_props t ps))"

subsection \<open>Lemmas\<close>

lemma has_bit_iff: "has_bit m pid \<longleftrightarrow> bit m (unat pid)"
  by (simp add: has_bit_def bit_iff_and_push_bit_not_eq_0)

lemma bit_propMask: "bit (propMask pids) (unat pid) \<longleftrightarrow> unat pid < 64 \<and> pid \<in> set pids"
proof (induction pids)
  case (Cons p pids)
  have "bit (push_bit (unat p) (1 :: u64)) (unat pid) \<longleftrightarrow> unat pid < 64 \<and> pid = p"
    by (auto simp: bit_simps word_unat_eq_iff)
  then show ?case
    using Cons by (auto simp: bit_simps)
qed simp

lemmas mask_defs = userProp_def reasonProps_def publishProps_def willProps_def allowedProps_def
  booleanProps_def stringProps_def

lemma has_bit_boolean: "has_bit booleanProps pid \<longleftrightarrow>
    pid \<in> {PropPayloadFormat, PropRequestProblemInfo, PropRequestResponseInfo, PropMaximumQoS,
           PropRetainAvailable, PropWildcardSubAvailable, PropSubscriptionIDAvailable, PropSharedSubAvailable}"
  unfolding has_bit_iff booleanProps_def bit_propMask by auto

lemma has_bit_string: "has_bit stringProps pid \<longleftrightarrow>
    pid \<in> {PropContentType, PropResponseTopic, PropAssignedClientID, PropAuthMethod,
           PropResponseInformation, PropServerReference, PropReasonString}"
  unfolding has_bit_iff stringProps_def bit_propMask by auto

lemma wf_boolean:
  assumes "has_bit booleanProps pid" and "wf_property (pid, v)"
  shows "\<exists>b. v = [b]"
proof -
  have "length v = 1"
    using assms unfolding has_bit_boolean wf_property_def by (simp add: propValueSize_of(1) del: insert_iff)
  then show ?thesis by (simp add: length_Suc_conv)
qed

lemma wf_field:
  assumes "has_bit stringProps pid" and "wf_property (pid, v)"
  shows "2 \<le> length v"
proof -
  have "propValueSize pid = field_size"
    using assms(1) unfolding has_bit_string by (intro propValueSize_of(5)) blast
  then show ?thesis
    using assms(2) by (auto simp: wf_property_def field_size_def split: if_splits)
qed

lemma wf_two:
  assumes "pid \<in> {PropTopicAlias, PropReceiveMaximum}" and "wf_property (pid, v)"
  shows "\<exists>a b. v = [a, b]"
proof -
  have "length v = Suc (Suc 0)"
    using assms unfolding wf_property_def by (auto simp: propValueSize_of(2))
  then show ?thesis by (auto simp: length_Suc_conv)
qed

lemma wf_four:
  assumes "wf_property (PropMaximumPacketSize, v)"
  shows "\<exists>a b c d. v = [a, b, c, d]"
proof -
  have "length v = Suc (Suc (Suc (Suc 0)))"
    using assms unfolding wf_property_def by (simp add: propValueSize_of(3))
  then show ?thesis by (auto simp: length_Suc_conv)
qed

lemma Uint16_nat:
  assumes "Uint16 (a # b # r) = (Ok u :: u16 gores)"
  shows "unat u = unat a * 256 + unat b"
proof -
  have "[a, b] = be16 u"
    using Uint16_OkD [OF assms] by (simp add: numeral_2_eq_2)
  then have "unat a = drop_bit 8 (unat u) mod 256" "unat b = unat u mod 256"
    by (auto simp: be16_def unsigned_ucast_eq take_bit_eq_mod unat_drop_bit_eq)
  moreover have "unat u div 256 < 256"
    using unat_less(2) [of u] by simp
  ultimately show ?thesis by (simp add: drop_bit_eq_div)
qed

lemma wf_user_pair:
  assumes "wf_property (PropUserProperty, v)"
  obtains k w where "v = str16 k @ str16 w" "length k < 65536" "length w < 65536"
proof -
  have "pair_size v = Ok (length v)"
    using assms by (simp add: wf_property_def propValueSize_of)
  then obtain kn vn where len: "2 + unat kn + 2 \<le> length v" and u: "Uint16 v = (Ok kn :: u16 gores)"
      "Uint16 (drop (2 + unat kn) v) = (Ok vn :: u16 gores)" and lv: "length v = 2 + unat kn + 2 + unat vn"
    unfolding pair_size_eq_Ok by blast
  define k where "k = take (unat kn) (drop 2 v)"
  define w where "w = drop 2 (drop (2 + unat kn) v)"
  have lk: "length k = unat kn" and lw: "length w = unat vn"
    using lv by (simp_all add: k_def w_def)
  have "take 2 v = be16 kn" "take 2 (drop (2 + unat kn) v) = be16 vn"
    using Uint16_OkD [OF u(1)] Uint16_OkD [OF u(2)] by simp_all
  moreover have "v = take 2 v @ k @ take 2 (drop (2 + unat kn) v) @ w"
    unfolding k_def w_def by (metis append_take_drop_id drop_drop add.commute)
  ultimately have "v = str16 k @ str16 w"
    by (simp add: str16_def lk lw)
  then show thesis
    using that lk lw unat_less(2) [of kn] unat_less(2) [of vn] by simp
qed

lemma str16_pair_inj:
  assumes "str16 k @ str16 w = str16 k' @ str16 w'"
    and "length k < 65536" "length w < 65536" "length k' < 65536" "length w' < 65536"
  shows "k = k' \<and> w = w'"
proof -
  have "k = k'"
    using arg_cong [OF assms(1), of readUTF8String] assms(2-) by simp
  moreover from this have "w = w'"
    using assms(1) arg_cong [of "str16 w" "str16 w'" "drop 2"] by (simp add: str16_def)
  ultimately show ?thesis by simp
qed

text \<open>On a well-formed property the \<open>switch\<close> never panics and accepts exactly the valid values.\<close>

lemma checkPropValue_user:
  assumes "length k < 65536" "length w < 65536"
  shows "checkPropValue t PropUserProperty (str16 k @ str16 w) =
    (if utf8_ok k \<and> utf8_ok w then Ok () else Err (malformed t))"
proof -
  obtain a b where ab: "be16 (of_nat (length k)) = [a, b]"
    by (simp add: be16_def)
  have "Uint16 (a # b # []) = (Ok (of_nat (length k)) :: u16 gores)"
    using Uint16_be16 [of "of_nat (length k)" "[]"] by (simp add: ab)
  from Uint16_nat [OF this] have len: "unat a * 256 + unat b = length k"
    using assms(1) by (simp add: unat_of_nat_u16)
  have v: "str16 k @ str16 w = a # b # k @ be16 (of_nat (length w)) @ w"
    by (simp add: str16_def ab)
  have "slice (a # b # k @ be16 (of_nat (length w)) @ w) 2 (2 + length k) = (Ok k :: (PacketError, byte list) res)"
    "slice_from (a # b # k @ be16 (of_nat (length w)) @ w) (4 + length k) = (Ok w :: (PacketError, byte list) res)"
    by (simp_all add: slice_def slice_from_def drop_Cons')
  then show ?thesis
    unfolding v checkPropValue_def
    by (simp add: has_bit_boolean has_bit_string len validUTF8Bytes_eq)
qed

lemma value_ok_alt:
  "value_ok t (pid, v) =
     (if has_bit booleanProps pid then hd v \<le> 1
      else if has_bit stringProps pid
        then utf8_ok (drop 2 v) \<and> (pid = PropResponseTopic \<longrightarrow> \<not> ContainsWildcard (drop 2 v))
      else if pid = PropUserProperty
        then \<exists>k w. v = str16 k @ str16 w \<and> length k < 65536 \<and> length w < 65536 \<and> utf8_ok k \<and> utf8_ok w
      else if pid \<in> {PropTopicAlias, PropReceiveMaximum} then v \<noteq> [0, 0]
      else if pid = PropMaximumPacketSize then v \<noteq> [0, 0, 0, 0]
      else if pid = PropSubscriptionIdentifier then \<exists>n. n \<noteq> 0 \<and> DecodeVarint v = Ok (n, length v)
      else True)"
  by (simp only: has_bit_boolean has_bit_string value_ok_def prod.case)

lemma other_bits:
  "pid \<in> {PropUserProperty, PropTopicAlias, PropReceiveMaximum, PropMaximumPacketSize, PropSubscriptionIdentifier} \<Longrightarrow>
    \<not> has_bit booleanProps pid \<and> \<not> has_bit stringProps pid"
  by (auto simp: has_bit_boolean has_bit_string)

lemma checkPropValue_wf:
  assumes wf: "wf_property (pid, v)"
  shows "(\<exists>e. checkPropValue t pid v = Err e \<and> \<not> value_ok t (pid, v)) \<or>
         checkPropValue t pid v = Ok () \<and> value_ok t (pid, v)"
proof -
  consider (bool) "has_bit booleanProps pid" | (str) "\<not> has_bit booleanProps pid" "has_bit stringProps pid"
    | (user) "pid = PropUserProperty" | (two) "pid \<in> {PropTopicAlias, PropReceiveMaximum}"
    | (four) "pid = PropMaximumPacketSize" | (sid) "pid = PropSubscriptionIdentifier"
    | (other) "\<not> has_bit booleanProps pid" "\<not> has_bit stringProps pid" "pid \<noteq> PropUserProperty"
        "pid \<notin> {PropTopicAlias, PropReceiveMaximum}" "pid \<noteq> PropMaximumPacketSize" "pid \<noteq> PropSubscriptionIdentifier"
    by blast
  then show ?thesis
  proof cases
    case bool
    then obtain b where "v = [b]" using wf_boolean wf by blast
    then show ?thesis
      using bool by (auto simp: checkPropValue_def value_ok_alt)
  next
    case str
    then have "2 \<le> length v" using wf_field wf by blast
    then show ?thesis
      using str
      by (simp add: checkPropValue_def value_ok_alt validUTF8Bytes_eq)
  next
    case user
    then obtain k w where v: "v = str16 k @ str16 w" "length k < 65536" "length w < 65536"
      using wf_user_pair wf by blast
    moreover have "value_ok t (pid, v) \<longleftrightarrow> utf8_ok k \<and> utf8_ok w"
      using v user by (auto simp: value_ok_alt other_bits dest: str16_pair_inj)
    ultimately show ?thesis
      using checkPropValue_user [of k w t] user by simp
  next
    case two
    then obtain a b where "v = [a, b]" using wf_two wf by blast
    then show ?thesis
      using two by (auto simp: checkPropValue_def value_ok_alt other_bits)
  next
    case four
    then obtain a b c d where "v = [a, b, c, d]" using wf_four wf by blast
    then show ?thesis
      using four by (auto simp: checkPropValue_def value_ok_alt other_bits or_eq_0_iff)
  next
    case sid
    then have "varint_size v = Ok (length v)"
      using wf by (simp add: wf_property_def propValueSize_of)
    then obtain n where "DecodeVarint v = Ok (n, length v)"
      by (auto simp: varint_size_def bindR_eq_Ok)
    then show ?thesis
      using sid by (auto simp: checkPropValue_def value_ok_alt other_bits)
  next
    case other
    moreover from this have "pid \<noteq> PropTopicAlias" "pid \<noteq> PropReceiveMaximum" by auto
    ultimately show ?thesis
      by (simp add: checkPropValue_def value_ok_alt)
  qed
qed

definition bits_of :: "u64 \<Rightarrow> byte set" where
  "bits_of seen = {pid. bit seen (unat pid)}"

lemma bits_of_insert: "pid < 64 \<Longrightarrow> bits_of (seen OR push_bit (unat pid) 1) = insert pid (bits_of seen)"
  by (auto simp: bits_of_def bit_simps word_unat_eq_iff word_less_nat_alt)

lemma validateProps_loop_enc:
  "wf_properties ps \<Longrightarrow>
    (validateProps_loop t allowed seen (enc_props ps) = Ok () \<longleftrightarrow>
      list_all (allowed_prop allowed) ps \<and> list_all (value_ok t) ps \<and>
      distinct (single_props t ps) \<and> set (single_props t ps) \<inter> bits_of seen = {})"
proof (induction ps arbitrary: seen)
  case (Cons p ps)
  obtain pid v where p: "p = (pid, v)" by (cases p)
  have wf: "wf_property (pid, v)" and size: "propValueSize pid (v @ r) = Ok (length v)" for r
    using Cons.prems by (simp_all add: p wf_property_size)
  have allow: "\<not> (pid \<ge> 64 \<or> \<not> has_bit allowed pid) \<longleftrightarrow> allowed_prop allowed p"
    by (auto simp: p allowed_prop_def has_bit_iff)
  have "validateProps_loop t allowed seen (enc_props (p # ps)) = Ok () \<longleftrightarrow>
     allowed_prop allowed p \<and> \<not> (pid \<in> bits_of seen \<and> \<not> multiProp t pid) \<and> value_ok t p \<and>
     validateProps_loop t allowed (seen OR push_bit (unat pid) 1) (enc_props ps) = Ok ()"
    using checkPropValue_wf [OF wf, of t] allow
    by (auto simp: p size bits_of_def has_bit_iff)
  also have "\<dots> \<longleftrightarrow> allowed_prop allowed p \<and> \<not> (pid \<in> bits_of seen \<and> \<not> multiProp t pid) \<and> value_ok t p \<and>
     list_all (allowed_prop allowed) ps \<and> list_all (value_ok t) ps \<and> distinct (single_props t ps) \<and>
     set (single_props t ps) \<inter> insert pid (bits_of seen) = {}"
    using Cons.IH Cons.prems bits_of_insert [of pid seen]
    by (cases "pid < 64") (auto simp: p allowed_prop_def [of _ "(pid, v)"])
  also have "\<dots> \<longleftrightarrow> list_all (allowed_prop allowed) (p # ps) \<and> list_all (value_ok t) (p # ps) \<and>
      distinct (single_props t (p # ps)) \<and> set (single_props t (p # ps)) \<inter> bits_of seen = {}"
    by (auto simp: single_props_def p)
  finally show ?case .
qed (simp add: single_props_def)

lemma bits_of_0 [simp]: "bits_of 0 = {}"
  by (simp add: bits_of_def)

lemma validateProps_enc:
  "wf_properties ps \<Longrightarrow> validateProps t (enc_props ps) allowed = Ok () \<longleftrightarrow> props_valid t allowed ps"
  by (simp add: validateProps_def validateProps_loop_enc props_valid_def)

lemma validateProps_loop_parses:
  "validateProps_loop t allowed seen b = Ok () \<Longrightarrow> \<exists>ps. parse_props b = Some ps"
proof (induction t allowed seen b rule: validateProps_loop.induct)
  case (2 t allowed seen pid rest)
  from "2.prems" obtain sz where "\<not> (pid \<ge> 64 \<or> \<not> has_bit allowed pid)" and sz: "propValueSize pid rest = Ok sz" "sz \<le> length rest"
    and "\<not> (has_bit seen pid \<and> \<not> multiProp t pid)" and chk: "checkPropValue t pid (take sz rest) = Ok ()"
    and "validateProps_loop t allowed (seen OR push_bit (unat pid) 1) (drop sz rest) = Ok ()"
    by (auto simp: bindR_eq_Ok split: if_splits res.splits)
  with "2.IH" obtain ps where "parse_props (drop sz rest) = Some ps"
    by fastforce
  then show ?case using sz by simp
qed simp

lemma validateProps_Ok:
  "validateProps t rw allowed = Ok () \<longleftrightarrow> (\<exists>ps. enc_props ps = rw \<and> props_valid t allowed ps)"
proof
  assume ok: "validateProps t rw allowed = Ok ()"
  then obtain ps where "parse_props rw = Some ps"
    using validateProps_loop_parses unfolding validateProps_def by blast
  then show "\<exists>ps. enc_props ps = rw \<and> props_valid t allowed ps"
    using parse_props_Some validateProps_enc ok by blast
next
  assume "\<exists>ps. enc_props ps = rw \<and> props_valid t allowed ps"
  then show "validateProps t rw allowed = Ok ()"
    using validateProps_enc by (auto simp: props_valid_def)
qed

lemma validateProps_loop_not_Panic: "validateProps_loop t allowed seen b \<noteq> Panic"
proof (induction t allowed seen b rule: validateProps_loop.induct)
  case (2 t allowed seen pid rest)
  show ?case
  proof (cases "propValueSize pid rest")
    case (Ok sz)
    have "checkPropValue t pid (take sz rest) \<noteq> Panic" if "sz \<le> length rest"
      using checkPropValue_wf [OF propValueSize_take [OF Ok that], of t] by auto
    then show ?thesis
      using "2.IH" [OF _ Ok] Ok by (auto simp: bindR_eq_Panic)
  qed auto
qed simp

lemma validateProps_not_Panic [simp]: "validateProps t rw allowed \<noteq> Panic"
  by (simp add: validateProps_def validateProps_loop_not_Panic)

lemma checkReason_Ok: "checkReason t rc = Ok () \<longleftrightarrow> rc \<in> set (reasonCodes t)"
  by (simp add: checkReason_def)

lemma checkReason_not_Panic [simp]: "checkReason t rc \<noteq> Panic"
  by (simp add: checkReason_def)

lemma checkString_Ok: "checkString s = Ok () \<longleftrightarrow> length s < 65536 \<and> utf8_ok s"
  by (auto simp: checkString_def validUTF8_eq)

lemma checkBinary_Ok: "checkBinary b = Ok () \<longleftrightarrow> length b < 65536"
  by (auto simp: checkBinary_def)

lemma checkUserProps_Ok:
  "checkUserProps ups = Ok () \<longleftrightarrow> list_all wf_user ups \<and> list_all (\<lambda>up. utf8_ok (Key up) \<and> utf8_ok (Value up)) ups"
  by (induction ups) (auto simp: bindR_eq_Ok checkString_Ok wf_user_def)

lemma checkBool_Ok: "checkBool b = Ok () \<longleftrightarrow> (\<forall>v. b = Some v \<longrightarrow> v \<le> 1)"
  by (auto simp: checkBool_def not_less split: option.splits)

lemma checkReasonCode_Ok: "checkReasonCode t rc = Ok () \<longleftrightarrow> rc \<in> set (reasonCodes t)"
  by (simp add: checkReasonCode_def checkReason_def)

lemmas check_Ok = checkString_Ok checkBinary_Ok checkUserProps_Ok checkBool_Ok checkReasonCode_Ok ValidTopicName_Ok

text \<open>The property lists of the encoders, piece by piece.\<close>

lemma list_all_props:
  "list_all P (p1 i v) \<longleftrightarrow> (\<forall>b. v = Some b \<longrightarrow> P (i, [b]))"
  "list_all P (p2 i w) \<longleftrightarrow> (w \<noteq> 0 \<longrightarrow> P (i, be16 w))"
  "list_all P (p2P i h) \<longleftrightarrow> (\<forall>w. h = Some w \<longrightarrow> P (i, be16 w))"
  "list_all P (p4 i d) \<longleftrightarrow> (\<forall>w. d = Some w \<longrightarrow> P (i, be32 w))"
  "list_all P (pV i d) \<longleftrightarrow> (\<forall>w. d = Some w \<longrightarrow> P (i, vbi (unat w)))"
  "list_all P (pS i s) \<longleftrightarrow> (s \<noteq> [] \<longrightarrow> P (i, str16 s))"
  "list_all P (pB i x) \<longleftrightarrow> (\<forall>b. x = Some b \<longrightarrow> P (i, str16 b))"
  "list_all P (pU ups) \<longleftrightarrow> list_all (\<lambda>up. P (PropUserProperty, str16 (Key up) @ str16 (Value up))) ups"
  by (auto simp: prop_spec_defs list_all_iff split: option.splits)

lemma single_props_append: "single_props t (ps @ qs) = single_props t ps @ single_props t qs"
  by (simp add: single_props_def)

lemma single_props_p:
  "single_props t (p1 i v) = (if v \<noteq> None \<and> \<not> multiProp t i then [i] else [])"
  "single_props t (p2 i w) = (if w \<noteq> 0 \<and> \<not> multiProp t i then [i] else [])"
  "single_props t (p2P i h) = (if h \<noteq> None \<and> \<not> multiProp t i then [i] else [])"
  "single_props t (p4 i d) = (if d \<noteq> None \<and> \<not> multiProp t i then [i] else [])"
  "single_props t (pV i d) = (if d \<noteq> None \<and> \<not> multiProp t i then [i] else [])"
  "single_props t (pS i s) = (if s \<noteq> [] \<and> \<not> multiProp t i then [i] else [])"
  "single_props t (pB i x) = (if x \<noteq> None \<and> \<not> multiProp t i then [i] else [])"
  "single_props t (pU ups) = []"
  by (auto simp: single_props_def prop_spec_defs multiProp_def split: option.splits)

lemma allowed_prop_mask: "allowed_prop (propMask pids) (i, v) \<longleftrightarrow> i < 64 \<and> i \<in> set pids"
  by (auto simp: allowed_prop_def bit_propMask word_less_nat_alt)

lemma value_ok_user:
  "wf_user up \<Longrightarrow> utf8_ok (Key up) \<Longrightarrow> utf8_ok (Value up) \<Longrightarrow>
    value_ok t (PropUserProperty, str16 (Key up) @ str16 (Value up))"
  by (auto simp: value_ok_def wf_user_def)

lemma value_ok_string:
  "i \<in> {PropContentType, PropResponseTopic, PropAssignedClientID, PropAuthMethod,
      PropResponseInformation, PropServerReference, PropReasonString} \<Longrightarrow>
    value_ok t (i, str16 s) \<longleftrightarrow> utf8_ok s \<and> (i = PropResponseTopic \<longrightarrow> \<not> ContainsWildcard s)"
  by (auto simp: value_ok_def str16_def)

lemma be16_zero: "be16 w = [0, 0] \<longleftrightarrow> w = 0"
  using Uint16_be16 [of w "[]"] by (auto simp: be16_def Uint16_def)

lemma be32_zero: "be32 w = [0, 0, 0, 0] \<longleftrightarrow> w = 0"
  using Uint32_be32 [of w "[]"] by (auto simp: be32_def Uint32_def)

lemma value_ok_fixed:
  "i \<in> {PropPayloadFormat, PropRequestProblemInfo, PropRequestResponseInfo, PropMaximumQoS,
     PropRetainAvailable, PropWildcardSubAvailable, PropSubscriptionIDAvailable,
     PropSharedSubAvailable} \<Longrightarrow> value_ok t (i, [b]) \<longleftrightarrow> b \<le> 1"
  "j \<in> {PropTopicAlias, PropReceiveMaximum} \<Longrightarrow> value_ok t (j, be16 w) \<longleftrightarrow> w \<noteq> 0"
  "value_ok t (PropMaximumPacketSize, be32 d) \<longleftrightarrow> d \<noteq> 0"
  "k \<in> {PropServerKeepAlive, PropTopicAliasMaximum, PropMessageExpiryInterval, PropSessionExpiryInterval,
      PropWillDelayInterval, PropCorrelationData, PropAuthData} \<Longrightarrow> value_ok t (k, v)"
  by (auto simp: value_ok_def be16_zero be32_zero)

lemmas props_valid_rules = list_all_props single_props_append single_props_p allowed_prop_mask
  value_ok_string value_ok_fixed value_ok_user

end
