(* ===== verification/Publish_Packet.thy ===== *)
theory Publish_Packet
  imports Validate
begin

text \<open>
  PUBLISH packets (\<open>wire/publish.go\<close> with \<open>validatePublishOpts\<close> of \<open>wire/validate.go\<close>). The
  encoders compute a layout, take a buffer of that size and fill it; the bytes a buffer holds
  before are an argument, so the results say that none of them is sent. Records hold the frame's
  views by value.
\<close>

subsection \<open>Data\<close>

record PublishOpts =
  po_Topic :: gostring
  po_Payload :: "byte list"
  po_QoS :: byte
  po_Retain :: bool
  po_Dup :: bool
  po_PacketID :: u16
  po_PayloadFormatIndicator :: "byte option"
  po_MessageExpiryInterval :: "u32 option"
  po_ContentType :: gostring
  po_ResponseTopic :: gostring
  po_CorrelationData :: "byte list option"
  po_TopicAlias :: u16
  po_UserProperties :: "UserProperty list"

record Publish =
  pb_Topic :: gostring
  pb_Payload :: "byte list"
  pb_Properties :: Properties
  pb_QoS :: byte
  pb_Retain :: bool
  pb_Dup :: bool
  pb_PacketID :: u16

record publishLayout =
  l_propsLen :: nat
  l_propsLenVBI :: nat
  l_varHdrSize :: nat
  l_remaining :: nat
  l_vbiSize :: nat
  l_total :: nat

text \<open>\<open>len\<close> and the elements of a slice that may be nil.\<close>

definition nil_bytes :: "byte list option \<Rightarrow> byte list" where
  "nil_bytes v = (case v of None \<Rightarrow> [] | Some b \<Rightarrow> b)"

subsection \<open>Operations\<close>

definition Publish_Opts :: "Publish \<Rightarrow> PublishOpts" where
  "Publish_Opts p =
     \<lparr>po_Topic = pb_Topic p, po_Payload = pb_Payload p, po_QoS = pb_QoS p, po_Retain = pb_Retain p,
      po_Dup = pb_Dup p, po_PacketID = pb_PacketID p,
      po_PayloadFormatIndicator = Properties_Byte (pb_Properties p) PropPayloadFormat,
      po_MessageExpiryInterval = Properties_Uint32 (pb_Properties p) PropMessageExpiryInterval,
      po_ContentType = (case Properties_String (pb_Properties p) PropContentType of Some v \<Rightarrow> v | None \<Rightarrow> []),
      po_ResponseTopic = (case Properties_String (pb_Properties p) PropResponseTopic of Some v \<Rightarrow> v | None \<Rightarrow> []),
      po_CorrelationData = Properties_Binary (pb_Properties p) PropCorrelationData,
      po_TopicAlias = (case Properties_Uint16 (pb_Properties p) PropTopicAlias of Some v \<Rightarrow> v | None \<Rightarrow> 0),
      po_UserProperties = UserProperties (pb_Properties p)\<rparr>"

definition validatePublishOpts :: "PublishOpts \<Rightarrow> unit gores" where
  "validatePublishOpts opts =
     (if po_QoS opts > 2 then Err ErrInvalidQoS
      else if po_QoS opts > 0 \<and> po_PacketID opts = 0 then Err ErrPacketIDRequired
      else if po_Dup opts \<and> po_QoS opts = 0 then Err (Errorf [ErrInvalidField])
      else if po_Topic opts = [] \<and> po_TopicAlias opts = 0 then Err (Errorf [ErrInvalidTopic])
      else bindR (ValidTopicName (po_Topic opts)) (\<lambda>_.
        bindR (if po_ResponseTopic opts \<noteq> [] then mapErr (\<lambda>e. Errorf [e]) (ValidTopicName (po_ResponseTopic opts)) else Ok ()) (\<lambda>_.
        bindR (checkBool (po_PayloadFormatIndicator opts)) (\<lambda>_.
        bindR (checkString (po_ContentType opts)) (\<lambda>_.
        bindR (checkBinary (nil_bytes (po_CorrelationData opts))) (\<lambda>_.
        checkUserProps (po_UserProperties opts)))))))"

definition decodePublish :: "byte list \<Rightarrow> byte \<Rightarrow> Publish gores" where
  "decodePublish frame flags =
     (let buf = frame;
          qos = drop_bit 1 flags AND 0x03;
          dup = (flags AND 0x08 \<noteq> 0);
          retain = (flags AND 0x01 \<noteq> 0)
      in if qos = 3 then Err (Errorf [ErrInvalidPacket])
         else if dup \<and> qos = 0 then Err (Errorf [ErrInvalidPacket])
         else if length buf < 2 then Err (Errorf [ErrInvalidPacket])
         else bindR (Uint16 buf) (\<lambda>tl. let topicLen = unat tl in
           bindR (slice_from buf 2) (\<lambda>buf.
           if length buf < topicLen then Err (Errorf [ErrInvalidPacket])
           else bindR (slice buf 0 topicLen) (\<lambda>t. let topic = bytesToString t in
           bindR (slice_from buf topicLen) (\<lambda>buf.
           bindR (if qos > 0
                  then if length buf < 2 then Err (Errorf [ErrInvalidPacket])
                       else bindR (Uint16 buf) (\<lambda>pid. bindR (slice_from buf 2) (\<lambda>buf. Ok (pid, buf)))
                  else Ok (0, buf)) (\<lambda>(packetID, buf).
           bindR (mapErr (\<lambda>e. Errorf [ErrInvalidPacket, e]) (DecodeVarint buf)) (\<lambda>(propsLen, n).
           bindR (slice_from buf n) (\<lambda>buf.
           if (of_nat (length buf) :: u32) < propsLen then Err (Errorf [ErrInvalidPacket])
           else bindR (slice buf 0 (unat propsLen)) (\<lambda>pr.
           bindR (slice_from buf (unat propsLen)) (\<lambda>buf.
             Ok \<lparr>pb_Topic = topic, pb_Payload = buf, pb_Properties = PropertiesFromBytes pr,
                 pb_QoS = qos, pb_Retain = retain, pb_Dup = dup, pb_PacketID = packetID\<rparr>))))))))))"

definition publishFlags :: "PublishOpts \<Rightarrow> byte" where
  "publishFlags opts =
     (let f = (0 :: byte);
          f = (if po_Dup opts then f OR 0x08 else f);
          f = f OR push_bit 1 (po_QoS opts AND 0x03)
      in if po_Retain opts then f OR 0x01 else f)"

definition publishPropsLen :: "PublishOpts \<Rightarrow> nat" where
  "publishPropsLen opts =
     (let n = 0;
          n = (if po_PayloadFormatIndicator opts \<noteq> None then n + 2 else n);
          n = (if po_MessageExpiryInterval opts \<noteq> None then n + 5 else n);
          n = (if po_ContentType opts \<noteq> [] then n + (1 + 2 + length (po_ContentType opts)) else n);
          n = (if po_ResponseTopic opts \<noteq> [] then n + (1 + 2 + length (po_ResponseTopic opts)) else n);
          n = (if po_CorrelationData opts \<noteq> None then n + (1 + 2 + length (nil_bytes (po_CorrelationData opts))) else n);
          n = (if po_TopicAlias opts \<noteq> 0 then n + 3 else n)
      in n + userPropertiesLen (po_UserProperties opts))"

definition publishLayoutOf :: "PublishOpts \<Rightarrow> publishLayout" where
  "publishLayoutOf opts =
     (let propsLen = publishPropsLen opts;
          propsLenVBI = VarintSize (of_nat propsLen);
          varHdrSize = 2 + length (po_Topic opts) + propsLenVBI + propsLen;
          varHdrSize = (if po_QoS opts > 0 then varHdrSize + 2 else varHdrSize);
          remaining = varHdrSize + length (po_Payload opts);
          vbiSize = VarintSize (of_nat remaining)
      in \<lparr>l_propsLen = propsLen, l_propsLenVBI = propsLenVBI, l_varHdrSize = varHdrSize,
          l_remaining = remaining, l_vbiSize = vbiSize, l_total = 1 + vbiSize + remaining\<rparr>)"

definition headerSize :: "publishLayout \<Rightarrow> nat" where
  "headerSize l = 1 + l_vbiSize l + l_varHdrSize l"

definition encodePublishVarHdr :: "byte list \<Rightarrow> PublishOpts \<Rightarrow> nat \<Rightarrow> (byte list \<times> nat) gores" where
  "encodePublishVarHdr buf opts propsLen =
     bindR (writeUTF8String buf 0 (po_Topic opts)) (\<lambda>(buf, off).
     bindR (if po_QoS opts > 0 then bindR (PutUint16 buf off (po_PacketID opts)) (\<lambda>buf. Ok (buf, off + 2))
            else Ok (buf, off)) (\<lambda>(buf, off).
     bindR (writePropertiesPrefix buf off propsLen) (\<lambda>(buf, off).
     bindR (writeProperty1 buf off PropPayloadFormat (po_PayloadFormatIndicator opts)) (\<lambda>(buf, off).
     bindR (writeProperty4 buf off PropMessageExpiryInterval (po_MessageExpiryInterval opts)) (\<lambda>(buf, off).
     bindR (writePropertyString buf off PropContentType (po_ContentType opts)) (\<lambda>(buf, off).
     bindR (writePropertyString buf off PropResponseTopic (po_ResponseTopic opts)) (\<lambda>(buf, off).
     bindR (writePropertyBinary buf off PropCorrelationData (po_CorrelationData opts)) (\<lambda>(buf, off).
     bindR (writeProperty2 buf off PropTopicAlias (po_TopicAlias opts)) (\<lambda>(buf, off).
     writePropertyUserProps buf off (po_UserProperties opts))))))))))"

definition encodeHeader :: "publishLayout \<Rightarrow> byte list \<Rightarrow> PublishOpts \<Rightarrow> byte list gores" where
  "encodeHeader l buf opts =
     bindR (set_index buf 0 (push_bit 4 PUBLISH OR publishFlags opts)) (\<lambda>buf.
     bindR (in_slice buf 1 (1 + l_vbiSize l) (\<lambda>sub. EncodeVarint sub (of_nat (l_remaining l)))) (\<lambda>(buf, _).
     let off = 1 + l_vbiSize l in
     bindR (in_slice buf off (off + l_varHdrSize l) (\<lambda>sub. encodePublishVarHdr sub opts (l_propsLen l))) (\<lambda>(buf, _).
     Ok buf)))"

definition publishLayout_encode :: "publishLayout \<Rightarrow> byte list \<Rightarrow> PublishOpts \<Rightarrow> byte list gores" where
  "publishLayout_encode l buf opts =
     bindR (encodeHeader l buf opts) (\<lambda>buf.
     bindR (copy_at buf (headerSize l) (po_Payload opts)) (\<lambda>(buf, _). Ok buf))"

text \<open>\<open>slices.Grow(dst, n)[:len(dst)+n]\<close>: \<open>spare\<close> is what the array behind \<open>dst\<close> holds.\<close>

definition grow :: "byte list \<Rightarrow> byte list \<Rightarrow> nat \<Rightarrow> byte list" where
  "grow dst spare n = dst @ take n (spare @ replicate n 0)"

definition AppendPublishHeader :: "byte list \<Rightarrow> byte list \<Rightarrow> PublishOpts \<Rightarrow> byte list gores" where
  "AppendPublishHeader spare dst opts =
     bindR (validatePublishOpts opts) (\<lambda>_.
       let l = publishLayoutOf opts; start = length dst; dst = grow dst spare (headerSize l) in
       bindR (slice_from dst start) (\<lambda>sub.
       bindR (encodeHeader l sub opts) (\<lambda>sub. Ok (take start dst @ sub))))"

text \<open>The buffers handed to the writer, in order.\<close>

definition WritePublish :: "bufpool \<Rightarrow> PublishOpts \<Rightarrow> byte list list gores" where
  "WritePublish pool opts =
     bindR (AppendPublishHeader (pool 0) [] opts) (\<lambda>hdr.
       if po_Payload opts = [] then Ok [hdr] else Ok [hdr, po_Payload opts])"

definition EncodePublish :: "bufpool \<Rightarrow> PublishOpts \<Rightarrow> byte list gores" where
  "EncodePublish pool opts =
     bindR (validatePublishOpts opts) (\<lambda>_.
       let l = publishLayoutOf opts in
       bindR (acquireBuf pool (l_total l)) (\<lambda>bp. publishLayout_encode l bp opts))"

definition MarshalPublish :: "PublishOpts \<Rightarrow> byte list gores" where
  "MarshalPublish opts =
     bindR (validatePublishOpts opts) (\<lambda>_.
       let l = publishLayoutOf opts in publishLayout_encode l (replicate (l_total l) 0) opts)"

function expiry_loop :: "byte list \<Rightarrow> nat \<Rightarrow> nat \<Rightarrow> nat option gores" where
  "expiry_loop frame off en =
     (if off < en then
        bindR (index frame off) (\<lambda>pid.
          let off = off + 1 in
          if pid = PropMessageExpiryInterval then
            if en - off < 4 then Ok None else Ok (Some off)
          else bindR (slice frame off en) (\<lambda>b.
            case propValueSize pid b of
              Err _ \<Rightarrow> Ok None
            | Panic \<Rightarrow> Panic
            | Ok sz \<Rightarrow> expiry_loop frame (off + sz) en))
      else Ok None)"
  by pat_completeness auto
termination
  by (relation "measure (\<lambda>(_, off, en). en - off)") auto

declare expiry_loop.simps [simp del]

text \<open>\<open>(0, false)\<close> is \<^term>\<open>None\<close>.\<close>

definition messageExpiryOffset :: "byte list \<Rightarrow> nat option gores" where
  "messageExpiryOffset frame =
     (if length frame < 2 \<or> drop_bit 4 (frame ! 0) \<noteq> PUBLISH then Ok None
      else let qos = drop_bit 1 (frame ! 0) AND 0x03 in
        bindR (slice_from frame 1) (\<lambda>b.
        case DecodeVarint b of Err _ \<Rightarrow> Ok None | Panic \<Rightarrow> Panic | Ok (_, n) \<Rightarrow>
        let off = 1 + n in
        if length frame < off + 2 then Ok None
        else bindR (slice_from frame off) (\<lambda>b. bindR (Uint16 b) (\<lambda>tl.
        let off = off + (2 + unat tl); off = (if qos > 0 then off + 2 else off) in
        if length frame < off then Ok None
        else bindR (slice_from frame off) (\<lambda>b.
        case DecodeVarint b of Err _ \<Rightarrow> Ok None | Panic \<Rightarrow> Panic | Ok (propsLen, n) \<Rightarrow>
        let off = off + n; en = off + unat propsLen in
        if length frame < en then Ok None else expiry_loop frame off en)))))"

definition WithMessageExpiry :: "byte list \<Rightarrow> u32 \<Rightarrow> byte list gores" where
  "WithMessageExpiry frame seconds =
     bindR (messageExpiryOffset frame) (\<lambda>r.
       case r of None \<Rightarrow> Ok frame | Some off \<Rightarrow> PutUint32 frame off seconds)"

subsection \<open>Specification\<close>

definition publish_props :: "PublishOpts \<Rightarrow> property list" where
  "publish_props opts =
     p1 PropPayloadFormat (po_PayloadFormatIndicator opts) @
     p4 PropMessageExpiryInterval (po_MessageExpiryInterval opts) @
     pS PropContentType (po_ContentType opts) @
     pS PropResponseTopic (po_ResponseTopic opts) @
     pB PropCorrelationData (po_CorrelationData opts) @
     p2 PropTopicAlias (po_TopicAlias opts) @
     pU (po_UserProperties opts)"

definition publish_varhdr :: "PublishOpts \<Rightarrow> byte list" where
  "publish_varhdr opts =
     str16 (po_Topic opts) @ (if po_QoS opts > 0 then be16 (po_PacketID opts) else []) @
     vbi (length (enc_props (publish_props opts))) @ enc_props (publish_props opts)"

definition publish_header :: "PublishOpts \<Rightarrow> byte list" where
  "publish_header opts =
     (push_bit 4 PUBLISH OR publishFlags opts) #
     vbi (length (publish_varhdr opts) + length (po_Payload opts)) @ publish_varhdr opts"

definition publish_bytes :: "PublishOpts \<Rightarrow> byte list" where
  "publish_bytes opts = publish_header opts @ po_Payload opts"

subsection \<open>Encoding\<close>

lemma nil_bytes_simps [simp]: "nil_bytes None = []" "nil_bytes (Some b) = b"
  by (simp_all add: nil_bytes_def)

lemma publishPropsLen_eq: "publishPropsLen opts = length (enc_props (publish_props opts))"
  by (auto simp: publishPropsLen_def publish_props_def userPropertiesLen_eq p1_def p2_def p4_def pS_def pB_def
      split: option.splits)

definition publish_remaining :: "PublishOpts \<Rightarrow> nat" where
  "publish_remaining opts = length (publish_varhdr opts) + length (po_Payload opts)"

lemma publishLayoutOf_eq:
  assumes "publish_remaining opts < 268435456"
  shows "publishLayoutOf opts =
    \<lparr>l_propsLen = length (enc_props (publish_props opts)),
     l_propsLenVBI = length (vbi (length (enc_props (publish_props opts)))),
     l_varHdrSize = length (publish_varhdr opts), l_remaining = publish_remaining opts,
     l_vbiSize = length (vbi (publish_remaining opts)),
     l_total = length (publish_bytes opts)\<rparr>"
proof -
  have props: "length (enc_props (publish_props opts)) < 268435456"
    using assms by (simp add: publish_remaining_def publish_varhdr_def)
  have vh: "(if po_QoS opts > 0
      then 2 + length (po_Topic opts) + length (vbi (length (enc_props (publish_props opts)))) +
        length (enc_props (publish_props opts)) + 2
      else 2 + length (po_Topic opts) + length (vbi (length (enc_props (publish_props opts)))) +
        length (enc_props (publish_props opts))) = length (publish_varhdr opts)"
    by (simp add: publish_varhdr_def)
  have total: "length (publish_bytes opts) = 1 + length (vbi (publish_remaining opts)) + publish_remaining opts"
    by (simp add: publish_bytes_def publish_header_def publish_remaining_def)
  show ?thesis
    unfolding publishLayoutOf_def Let_def publishPropsLen_eq VarintSize_of_nat [OF props] vh
      publish_remaining_def [symmetric] VarintSize_of_nat [OF assms] total
    by (rule refl)
qed

lemma encodePublishVarHdr_eq:
  assumes "length (enc_props (publish_props opts)) < 268435456" and "length sub = length (publish_varhdr opts)"
  shows "encodePublishVarHdr sub opts (length (enc_props (publish_props opts))) =
    Ok (publish_varhdr opts, length (publish_varhdr opts))"
proof -
  have id: "stores (\<lambda>buf off. if po_QoS opts > 0 then bindR (PutUint16 buf off (po_PacketID opts)) (\<lambda>buf. Ok (buf, off + 2)) else Ok (buf, off))
      (if po_QoS opts > 0 then be16 (po_PacketID opts) else [])"
    using PutUint16_stores stores_id by (cases "po_QoS opts > 0") simp_all
  have "stores (\<lambda>buf off.
     bindR (writeUTF8String buf off (po_Topic opts)) (\<lambda>(buf, off).
     bindR (if po_QoS opts > 0 then bindR (PutUint16 buf off (po_PacketID opts)) (\<lambda>buf. Ok (buf, off + 2))
            else Ok (buf, off)) (\<lambda>(buf, off).
     bindR (writePropertiesPrefix buf off (length (enc_props (publish_props opts)))) (\<lambda>(buf, off).
     bindR (writeProperty1 buf off PropPayloadFormat (po_PayloadFormatIndicator opts)) (\<lambda>(buf, off).
     bindR (writeProperty4 buf off PropMessageExpiryInterval (po_MessageExpiryInterval opts)) (\<lambda>(buf, off).
     bindR (writePropertyString buf off PropContentType (po_ContentType opts)) (\<lambda>(buf, off).
     bindR (writePropertyString buf off PropResponseTopic (po_ResponseTopic opts)) (\<lambda>(buf, off).
     bindR (writePropertyBinary buf off PropCorrelationData (po_CorrelationData opts)) (\<lambda>(buf, off).
     bindR (writeProperty2 buf off PropTopicAlias (po_TopicAlias opts)) (\<lambda>(buf, off).
     writePropertyUserProps buf off (po_UserProperties opts)))))))))))
     (publish_varhdr opts)"
    unfolding publish_varhdr_def publish_props_def enc_props_simps
    using assms(1) by (intro stores_bind writes id) (simp_all add: publish_props_def)
  from stores_exact [OF this assms(2)] show ?thesis
    by (simp add: encodePublishVarHdr_def)
qed

lemma publish_remaining_props:
  "publish_remaining opts < 268435456 \<Longrightarrow> length (enc_props (publish_props opts)) < 268435456"
  by (simp add: publish_remaining_def publish_varhdr_def)

lemma encodeHeader_eq:
  assumes "publish_remaining opts < 268435456" and "length buf = length (publish_header opts) + n"
  shows "encodeHeader (publishLayoutOf opts) buf opts =
    Ok (publish_header opts @ drop (length (publish_header opts)) buf)"
proof -
  let ?r = "publish_remaining opts" and ?v = "publish_varhdr opts"
  have "stores (\<lambda>buf off.
      bindR (bindR (set_index buf off (push_bit 4 PUBLISH OR publishFlags opts)) (\<lambda>buf. Ok (buf, off + 1))) (\<lambda>(buf, off).
      bindR (bindR (in_slice buf off (off + length (vbi ?r)) (\<lambda>sub. EncodeVarint sub (of_nat ?r)))
              (\<lambda>(buf, _). Ok (buf, off + length (vbi ?r)))) (\<lambda>(buf, off).
      bindR (in_slice buf off (off + length ?v) (\<lambda>sub. encodePublishVarHdr sub opts (length (enc_props (publish_props opts)))))
              (\<lambda>(buf, _). Ok (buf, off + length ?v)))))
      ([push_bit 4 PUBLISH OR publishFlags opts] @ vbi ?r @ ?v)"
    using assms(1)
    by (intro stores_bind set_index_stores stores_in_slice)
      (auto simp: EncodeVarint_exact encodePublishVarHdr_eq publish_remaining_props)
  from storesD [OF this, of 0 buf] assms show ?thesis
    by (simp add: publish_header_def publish_remaining_def [symmetric] encodeHeader_def publishLayoutOf_eq
        bindR_assoc bindR_eq_Ok Let_def split: prod.splits)
qed

lemma headerSize_eq:
  "publish_remaining opts < 268435456 \<Longrightarrow> headerSize (publishLayoutOf opts) = length (publish_header opts)"
  by (simp add: headerSize_def publishLayoutOf_eq publish_header_def publish_remaining_def)

lemma publishLayout_encode_eq:
  assumes "publish_remaining opts < 268435456" and "length buf = length (publish_bytes opts)"
  shows "publishLayout_encode (publishLayoutOf opts) buf opts = Ok (publish_bytes opts)"
  using assms encodeHeader_eq [of opts buf "length (po_Payload opts)"]
  by (simp add: publishLayout_encode_def headerSize_eq publish_bytes_def copy_at_def Let_def)

lemma l_total_eq:
  "publish_remaining opts < 268435456 \<Longrightarrow> l_total (publishLayoutOf opts) = length (publish_bytes opts)"
  by (simp add: publishLayoutOf_eq)

lemma MarshalPublish_eq:
  "publish_remaining opts < 268435456 \<Longrightarrow>
    MarshalPublish opts = bindR (validatePublishOpts opts) (\<lambda>_. Ok (publish_bytes opts))"
  by (simp add: MarshalPublish_def Let_def l_total_eq publishLayout_encode_eq)

lemma EncodePublish_eq:
  assumes "publish_remaining opts < 268435456" and "pool_ok pool"
  shows "EncodePublish pool opts = bindR (validatePublishOpts opts) (\<lambda>_. Ok (publish_bytes opts))"
  unfolding EncodePublish_def Let_def l_total_eq [OF assms(1)]
  by (rule bindR_cong [OF refl], rule bind_acquireBuf [OF assms(2)]) (rule publishLayout_encode_eq [OF assms(1)])

lemma AppendPublishHeader_eq:
  assumes "publish_remaining opts < 268435456"
  shows "AppendPublishHeader spare dst opts = bindR (validatePublishOpts opts) (\<lambda>_. Ok (dst @ publish_header opts))"
  using encodeHeader_eq [OF assms, of "take (length (publish_header opts)) (spare @ replicate (length (publish_header opts)) 0)" 0]
  by (simp add: AppendPublishHeader_def Let_def headerSize_eq [OF assms] grow_def)

lemma WritePublish_eq:
  assumes "publish_remaining opts < 268435456"
  shows "mapErr id (bindR (WritePublish pool opts) (\<lambda>bufs. Ok (concat bufs))) =
    bindR (validatePublishOpts opts) (\<lambda>_. Ok (publish_bytes opts))"
  by (cases "validatePublishOpts opts")
    (simp_all add: WritePublish_def AppendPublishHeader_eq [OF assms] publish_bytes_def)

text \<open>Too large for a Remaining Length: an error, as long as the length itself fits \<open>uint32\<close>.\<close>

lemma l_remaining_eq:
  assumes "length (enc_props (publish_props opts)) < 268435456"
  shows "l_remaining (publishLayoutOf opts) = publish_remaining opts"
  using VarintSize_of_nat [OF assms]
  by (simp add: publishLayoutOf_def Let_def publishPropsLen_eq publish_remaining_def publish_varhdr_def)

subsection \<open>Validation\<close>

definition valid_publish :: "PublishOpts \<Rightarrow> bool" where
  "valid_publish opts \<longleftrightarrow>
     po_QoS opts \<le> 2 \<and> (po_QoS opts > 0 \<longrightarrow> po_PacketID opts \<noteq> 0) \<and> (po_Dup opts \<longrightarrow> po_QoS opts > 0) \<and>
     (po_Topic opts = [] \<longrightarrow> po_TopicAlias opts \<noteq> 0) \<and>
     length (po_Topic opts) < 65536 \<and> utf8_ok (po_Topic opts) \<and> \<not> ContainsWildcard (po_Topic opts) \<and>
     length (po_ResponseTopic opts) < 65536 \<and> utf8_ok (po_ResponseTopic opts) \<and>
     \<not> ContainsWildcard (po_ResponseTopic opts) \<and>
     (\<forall>v. po_PayloadFormatIndicator opts = Some v \<longrightarrow> v \<le> 1) \<and>
     length (po_ContentType opts) < 65536 \<and> utf8_ok (po_ContentType opts) \<and>
     length (nil_bytes (po_CorrelationData opts)) < 65536 \<and>
     list_all wf_user (po_UserProperties opts) \<and>
     list_all (\<lambda>up. utf8_ok (Key up) \<and> utf8_ok (Value up)) (po_UserProperties opts)"

lemma ContainsWildcard_Nil [simp]: "\<not> ContainsWildcard []"
  by (simp add: ContainsWildcard_def)

lemma validatePublishOpts_Ok: "validatePublishOpts opts = Ok () \<longleftrightarrow> valid_publish opts"
  by (auto simp: validatePublishOpts_def valid_publish_def bindR_eq_Ok check_Ok not_less word_neq_0_conv
      split: if_splits)

subsection \<open>Decoding\<close>

lemma qos_cases: "q \<le> 2 \<Longrightarrow> q = 0 \<or> q = 1 \<or> q = (2 :: byte)"
  by (auto simp: word_le_nat_alt word_unat_eq_iff)

lemma publishFlags_decode:
  assumes "po_QoS opts \<le> 2"
  shows "drop_bit 1 (publishFlags opts) AND 0x03 = po_QoS opts"
    "(publishFlags opts AND 0x08 \<noteq> 0) = po_Dup opts"
    "(publishFlags opts AND 0x01 \<noteq> 0) = po_Retain opts"
  using qos_cases [OF assms] by (auto simp: publishFlags_def Let_def)

definition publish_of :: "PublishOpts \<Rightarrow> Publish" where
  "publish_of opts =
     \<lparr>pb_Topic = po_Topic opts, pb_Payload = po_Payload opts,
      pb_Properties = PropertiesFromBytes (enc_props (publish_props opts)), pb_QoS = po_QoS opts,
      pb_Retain = po_Retain opts, pb_Dup = po_Dup opts,
      pb_PacketID = (if po_QoS opts > 0 then po_PacketID opts else 0)\<rparr>"

lemma decode_props_section:
  assumes "length ps < 268435456" and "length ps + length r < 4294967296"
  shows "DecodeVarint (vbi (length ps) @ ps @ r) = Ok (of_nat (length ps), length (vbi (length ps)))"
    and "\<not> (of_nat (length (ps @ r)) :: u32) < of_nat (length ps)"
    and "unat (of_nat (length ps) :: u32) = length ps"
  using assms by (simp_all add: DecodeVarint_vbi word_less_nat_alt unat_of_nat_u32 del: of_nat_add)

lemma decodePublish_enc:
  assumes "valid_publish opts" and "publish_remaining opts < 268435456"
  shows "decodePublish (publish_varhdr opts @ po_Payload opts) (publishFlags opts) = Ok (publish_of opts)"
proof -
  let ?ps = "enc_props (publish_props opts)"
  have v: "po_QoS opts \<le> 2" "\<not> (po_Dup opts \<and> po_QoS opts = 0)" "length (po_Topic opts) < 65536" "po_QoS opts \<noteq> 3"
    using assms(1) by (auto simp: valid_publish_def)
  have len: "length ?ps < 268435456" "length ?ps + length (po_Payload opts) < 4294967296"
    using assms(2) by (simp_all add: publish_remaining_def publish_varhdr_def)
  note dec = decode_props_section [OF len]
  show ?thesis
    using v dec
    by (cases "po_QoS opts > 0")
      (simp_all add: decodePublish_def publish_varhdr_def publishFlags_decode [OF v(1)] str16_def unat_of_nat_u16
        publish_of_def Let_def del: One_nat_def)
qed

lemma wf_publish_props:
  assumes "valid_publish opts"
  shows "wf_properties (publish_props opts)"
  using assms unfolding publish_props_def valid_publish_def
  by (simp add: wf_properties_p nil_bytes_def)

lemma Publish_Opts_publish_of:
  assumes "valid_publish opts"
  shows "Publish_Opts (publish_of opts) = opts\<lparr>po_PacketID := if po_QoS opts > 0 then po_PacketID opts else 0\<rparr>"
proof -
  note wf = wf_publish_props [OF assms]
  have look: "map_of (publish_props opts) PropPayloadFormat = map_option (\<lambda>b. [b]) (po_PayloadFormatIndicator opts)"
    "map_of (publish_props opts) PropMessageExpiryInterval = map_option be32 (po_MessageExpiryInterval opts)"
    "map_of (publish_props opts) PropContentType = (if po_ContentType opts = [] then None else Some (str16 (po_ContentType opts)))"
    "map_of (publish_props opts) PropResponseTopic = (if po_ResponseTopic opts = [] then None else Some (str16 (po_ResponseTopic opts)))"
    "map_of (publish_props opts) PropCorrelationData = map_option str16 (po_CorrelationData opts)"
    "map_of (publish_props opts) PropTopicAlias = (if po_TopicAlias opts = 0 then None else Some (be16 (po_TopicAlias opts)))"
    by (simp_all add: publish_props_def map_add_def split: option.split)
  have user: "UserProperties (PropertiesFromBytes (enc_props (publish_props opts))) = po_UserProperties opts"
    unfolding publish_props_def append_assoc [symmetric]
    using wf assms
    by (intro UserProperties_enc) (auto simp: publish_props_def valid_publish_def prop_spec_defs split: option.splits)
  have len: "length (po_ContentType opts) < 65536" "length (po_ResponseTopic opts) < 65536"
      "length (case po_CorrelationData opts of None \<Rightarrow> [] | Some x \<Rightarrow> x) < 65536"
    using assms by (auto simp: valid_publish_def nil_bytes_def)
  show ?thesis
    by (simp add: Publish_Opts_def publish_of_def user Properties_enc(1,3) [OF wf] look Properties_enc(4) [OF wf look(5) len(3)]
        Properties_enc(5) [OF wf look(3) len(1)] Properties_enc(5) [OF wf look(4) len(2)]
        Properties_enc(6) [OF wf look(6)])
qed

lemma publish_props_valid:
  assumes "valid_publish opts"
  shows "props_valid PUBLISH publishProps (publish_props opts)"
  unfolding props_valid_def
proof (intro conjI)
  show "wf_properties (publish_props opts)"
    using assms by (rule wf_publish_props)
  show "list_all (allowed_prop publishProps) (publish_props opts)"
    unfolding publish_props_def publishProps_def
    by (simp add: props_valid_rules del: propMask.simps) (simp add: list_all_iff)
  show "list_all (value_ok PUBLISH) (publish_props opts)"
    using assms by (simp add: publish_props_def valid_publish_def props_valid_rules) (simp add: list_all_iff props_valid_rules)
  show "distinct (single_props PUBLISH (publish_props opts))"
    by (simp add: publish_props_def props_valid_rules multiProp_def)
qed

lemma decodePublish_not_Panic:
  assumes "length frame < 4294967296"
  shows "decodePublish frame flags \<noteq> Panic"
  unfolding decodePublish_def Let_def
  using assms
  by (intro split_section_not_Panic no_panic)
    (auto simp: bindR_eq_Ok slice_from_def not_less not_le split: if_splits dest!: DecodeVarint_OkD(3))

subsection \<open>Rewriting the expiry of a stored frame\<close>

lemma expiry_loop_skip:
  assumes "wf_properties ps" and "list_all (\<lambda>(i, _). i \<noteq> PropMessageExpiryInterval) ps"
    and "en \<le> length (pre @ enc_props ps @ r)" and "length pre + length (enc_props ps) \<le> en"
  shows "expiry_loop (pre @ enc_props ps @ r) (length pre) en =
    expiry_loop (pre @ enc_props ps @ r) (length pre + length (enc_props ps)) en"
  using assms
proof (induction ps arbitrary: pre)
  case (Cons p ps)
  obtain i v where p: "p = (i, v)" by (cases p)
  let ?f = "pre @ enc_props (p # ps) @ r"
  have ne: "i \<noteq> PropMessageExpiryInterval" and wf: "wf_property (i, v)"
    using Cons.prems by (simp_all add: p)
  have sl: "slice ?f (length pre + 1) en = (Ok (v @ take (en - length pre - 1 - length v) (enc_props ps @ r)) :: byte list gores)"
    using Cons.prems(3,4) by (simp add: p slice_def)
  have "expiry_loop ?f (length pre) en = expiry_loop ?f (length pre + 1 + length v) en"
    using Cons.prems(4) ne sl wf_property_size [OF wf]
    by (subst expiry_loop.simps) (simp add: p nth_append)
  also have "\<dots> = expiry_loop ?f (length pre + length (enc_props (p # ps))) en"
    using Cons.IH [of "pre @ i # v"] Cons.prems by (simp add: p add.assoc)
  finally show ?case .
qed simp

lemma push_PUBLISH:
  assumes "po_QoS opts \<le> 2"
  shows "drop_bit 4 (push_bit 4 PUBLISH OR publishFlags opts) = PUBLISH"
    "drop_bit 1 (push_bit 4 PUBLISH OR publishFlags opts) AND 0x03 = po_QoS opts"
  using qos_cases [OF assms] by (auto simp: publishFlags_def Let_def)

lemma messageExpiryOffset_enc:
  assumes "valid_publish opts" and "publish_remaining opts < 268435456"
  shows "messageExpiryOffset (publish_bytes opts) =
    (let pre = (push_bit 4 PUBLISH OR publishFlags opts) # vbi (publish_remaining opts) @ str16 (po_Topic opts) @
           (if po_QoS opts > 0 then be16 (po_PacketID opts) else []) @ vbi (length (enc_props (publish_props opts)))
     in expiry_loop (pre @ enc_props (publish_props opts) @ po_Payload opts) (length pre)
          (length pre + length (enc_props (publish_props opts))))"
proof -
  have q: "po_QoS opts \<le> 2" and t: "length (po_Topic opts) < 65536"
    using assms(1) by (auto simp: valid_publish_def)
  note props = publish_remaining_props [OF assms(2)]
  have d1: "DecodeVarint (vbi (publish_remaining opts) @ r) = Ok (of_nat (publish_remaining opts), length (vbi (publish_remaining opts)))"
    and d2: "DecodeVarint (vbi (length (enc_props (publish_props opts))) @ r) =
      Ok (of_nat (length (enc_props (publish_props opts))), length (vbi (length (enc_props (publish_props opts)))))" for r
    using assms(2) props by (simp_all add: DecodeVarint_vbi)
  have u: "unat (of_nat (length (enc_props (publish_props opts))) :: u32) = length (enc_props (publish_props opts))"
    using props by (simp add: unat_of_nat_u32)
  have rem: "length (str16 (po_Topic opts) @ (if po_QoS opts > 0 then be16 (po_PacketID opts) else []) @
      vbi (length (enc_props (publish_props opts))) @ enc_props (publish_props opts)) + length (po_Payload opts) = publish_remaining opts"
    by (simp add: publish_remaining_def publish_varhdr_def)
  define h where "h = push_bit 4 PUBLISH OR publishFlags opts"
  have h: "drop_bit 4 h = PUBLISH" "drop_bit (Suc 0) h AND 3 = po_QoS opts"
    using push_PUBLISH [OF q] by (simp_all add: h_def)
  show ?thesis
    unfolding messageExpiryOffset_def publish_bytes_def publish_header_def publish_varhdr_def rem h_def [symmetric]
    using t h
    by (cases "po_QoS opts > 0")
      (simp_all add: d1 d2 u str16_def unat_of_nat_u16 Let_def add.assoc)
qed

lemma expiry_loop_found:
  assumes "length pre + 5 \<le> en" and "en \<le> length (pre @ PropMessageExpiryInterval # be32 x @ r)"
  shows "expiry_loop (pre @ PropMessageExpiryInterval # be32 x @ r) (length pre) en = Ok (Some (length pre + 1))"
  using assms by (subst expiry_loop.simps) (simp add: nth_append)

lemma WithMessageExpiry_enc:
  assumes v: "valid_publish opts" and r: "publish_remaining opts < 268435456"
  shows "WithMessageExpiry (publish_bytes opts) s =
    Ok (publish_bytes (if po_MessageExpiryInterval opts = None then opts
                       else opts\<lparr>po_MessageExpiryInterval := Some s\<rparr>))"
proof -
  define pre where "pre = (push_bit 4 PUBLISH OR publishFlags opts) # vbi (publish_remaining opts) @ str16 (po_Topic opts) @
           (if po_QoS opts > 0 then be16 (po_PacketID opts) else []) @ vbi (length (enc_props (publish_props opts)))"
  have bytes: "publish_bytes opts = pre @ enc_props (publish_props opts) @ po_Payload opts"
    by (simp add: pre_def publish_bytes_def publish_header_def publish_varhdr_def publish_remaining_def)
  have off: "messageExpiryOffset (publish_bytes opts) =
      expiry_loop (publish_bytes opts) (length pre) (length pre + length (enc_props (publish_props opts)))"
    using messageExpiryOffset_enc [OF v r] unfolding Let_def pre_def [symmetric] bytes [symmetric] .
  note wf = wf_publish_props [OF v]
  show ?thesis
  proof (cases "po_MessageExpiryInterval opts")
    case None
    then have "list_all (\<lambda>(i, _). i \<noteq> PropMessageExpiryInterval) (publish_props opts)"
      by (simp add: publish_props_def list_all_props) (simp add: list_all_iff)
    from expiry_loop_skip [OF wf this, of "length pre + length (enc_props (publish_props opts))" pre "po_Payload opts"]
    have "messageExpiryOffset (publish_bytes opts) = Ok None"
      unfolding off by (simp add: bytes expiry_loop.simps)
    then show ?thesis using None by (simp add: WithMessageExpiry_def)
  next
    case (Some x)
    define A where "A = p1 PropPayloadFormat (po_PayloadFormatIndicator opts)"
    define B where "B = pS PropContentType (po_ContentType opts) @ pS PropResponseTopic (po_ResponseTopic opts) @
      pB PropCorrelationData (po_CorrelationData opts) @ p2 PropTopicAlias (po_TopicAlias opts) @ pU (po_UserProperties opts)"
    have props: "publish_props (opts\<lparr>po_MessageExpiryInterval := Some y\<rparr>) = A @ (PropMessageExpiryInterval, be32 y) # B" for y
      by (simp add: publish_props_def A_def B_def p4_def)
    have props0: "publish_props opts = A @ (PropMessageExpiryInterval, be32 x) # B"
      using props [of x] Some by (simp add: publish_props_def p4_def)
    let ?f = "pre @ enc_props A @ PropMessageExpiryInterval # be32 x @ enc_props B @ po_Payload opts"
    have f: "publish_bytes opts = ?f" by (simp add: bytes props0)
    have wfA: "wf_properties A" and noA: "list_all (\<lambda>(i, _). i \<noteq> PropMessageExpiryInterval) A"
      using wf by (simp_all add: props0) (simp add: A_def list_all_props)
    have "expiry_loop ?f (length pre) (length pre + length (enc_props (publish_props opts))) =
        expiry_loop ((pre @ enc_props A) @ PropMessageExpiryInterval # be32 x @ enc_props B @ po_Payload opts)
          (length (pre @ enc_props A)) (length pre + length (enc_props (publish_props opts)))"
      using expiry_loop_skip [OF wfA noA, of "length pre + length (enc_props (publish_props opts))" pre
          "PropMessageExpiryInterval # be32 x @ enc_props B @ po_Payload opts"]
      by (simp add: props0)
    also have "\<dots> = Ok (Some (length (pre @ enc_props A) + 1))"
      by (rule expiry_loop_found) (simp_all add: props0)
    finally have "messageExpiryOffset (publish_bytes opts) = Ok (Some (length (pre @ enc_props A) + 1))"
      unfolding off f [symmetric] .
    then have "WithMessageExpiry (publish_bytes opts) s =
        Ok (pre @ enc_props A @ PropMessageExpiryInterval # be32 s @ enc_props B @ po_Payload opts)"
      by (simp add: WithMessageExpiry_def f PutUint32_def add.commute)
    also have "pre @ enc_props A @ PropMessageExpiryInterval # be32 s @ enc_props B @ po_Payload opts =
        publish_bytes (opts\<lparr>po_MessageExpiryInterval := Some s\<rparr>)"
      unfolding publish_bytes_def publish_header_def publish_varhdr_def pre_def publish_remaining_def props props0
      by (simp add: publishFlags_def)
    finally show ?thesis using Some by simp
  qed
qed

subsection \<open>Sizes that do not fit\<close>

text \<open>The layout converts its sizes to \<open>uint32\<close>. Below \<open>2\<^sup>3\<^sup>2\<close> a packet that is too large is refused;
  from there on the conversion wraps, and the packet gets the Remaining Length of the wrapped size.\<close>

lemma l_vbiSize_eq:
  "l_vbiSize (publishLayoutOf opts) = VarintSize (of_nat (l_remaining (publishLayoutOf opts)))"
  by (simp only: publishLayoutOf_def Let_def publishLayout.select_convs)

lemma encodeHeader_too_large:
  assumes "length (enc_props (publish_props opts)) < 268435456"
    and "268435456 \<le> publish_remaining opts" "publish_remaining opts < 4294967296" and "buf \<noteq> []"
  shows "encodeHeader (publishLayoutOf opts) buf opts = Err ErrVarintTooLarge"
proof -
  have big: "(of_nat (publish_remaining opts) :: u32) > MaxVarintValue"
    using assms(2,3) by (simp add: word_less_nat_alt MaxVarintValue_def unat_of_nat_u32)
  then have "l_vbiSize (publishLayoutOf opts) = 0"
    using assms(2,3) by (simp add: l_vbiSize_eq l_remaining_eq [OF assms(1)] VarintSize_def MaxVarintValue_def
        word_less_nat_alt word_le_nat_alt unat_of_nat_u32)
  then show ?thesis
    using assms(4) big by (simp add: encodeHeader_def l_remaining_eq [OF assms(1)] in_slice_def EncodeVarint_def Suc_le_eq)
qed

lemma MarshalPublish_too_large:
  assumes "valid_publish opts" and "length (enc_props (publish_props opts)) < 268435456"
    and "268435456 \<le> publish_remaining opts" "publish_remaining opts < 4294967296"
  shows "MarshalPublish opts = Err ErrVarintTooLarge"
proof -
  have "l_total (publishLayoutOf opts) \<noteq> 0"
    by (simp add: publishLayoutOf_def Let_def)
  then show ?thesis
    using assms encodeHeader_too_large [OF assms(2-4)]
    by (simp add: MarshalPublish_def validatePublishOpts_Ok [symmetric] Let_def publishLayout_encode_def)
qed

lemma MarshalPublish_wraps:
  assumes "valid_publish opts" and props: "length (enc_props (publish_props opts)) < 268435456"
    and n: "publish_remaining opts mod 4294967296 < 268435456"
  shows "MarshalPublish opts =
    Ok ((push_bit 4 PUBLISH OR publishFlags opts) # vbi (publish_remaining opts mod 4294967296) @
        publish_varhdr opts @ po_Payload opts)"
proof -
  let ?n = "publish_remaining opts mod 4294967296" and ?v = "publish_varhdr opts"
  let ?h = "push_bit 4 PUBLISH OR publishFlags opts"
  have conv: "(of_nat (publish_remaining opts) :: u32) = of_nat ?n"
    by (simp add: word_unat_eq_iff unat_of_nat)
  have vh: "l_varHdrSize (publishLayoutOf opts) = length ?v" "l_propsLen (publishLayoutOf opts) = length (enc_props (publish_props opts))"
    using VarintSize_of_nat [OF props] by (auto simp: publishLayoutOf_def Let_def publishPropsLen_eq publish_varhdr_def)
  have vs: "l_vbiSize (publishLayoutOf opts) = length (vbi ?n)"
    using VarintSize_of_nat [OF n] by (simp add: l_vbiSize_eq l_remaining_eq [OF props] conv)
  have total: "l_total (publishLayoutOf opts) = length (?h # vbi ?n @ ?v @ po_Payload opts)"
    using vs l_remaining_eq [OF props] unfolding publishLayoutOf_def Let_def by (simp add: publish_remaining_def)
  have st: "stores (\<lambda>buf off.
      bindR (bindR (set_index buf off ?h) (\<lambda>buf. Ok (buf, off + 1))) (\<lambda>(buf, off).
      bindR (bindR (in_slice buf off (off + length (vbi ?n)) (\<lambda>sub. EncodeVarint sub (of_nat ?n)))
              (\<lambda>(buf, _). Ok (buf, off + length (vbi ?n)))) (\<lambda>(buf, off).
      bindR (in_slice buf off (off + length ?v) (\<lambda>sub. encodePublishVarHdr sub opts (length (enc_props (publish_props opts)))))
              (\<lambda>(buf, _). Ok (buf, off + length ?v)))))
      ([?h] @ vbi ?n @ ?v)"
    using n props
    by (intro stores_bind set_index_stores stores_in_slice) (auto simp: EncodeVarint_exact encodePublishVarHdr_eq)
  have "encodeHeader (publishLayoutOf opts) (replicate (l_total (publishLayoutOf opts)) 0) opts =
      Ok (?h # vbi ?n @ ?v @ replicate (length (po_Payload opts)) 0)"
    using storesD [OF st, of 0 "replicate (l_total (publishLayoutOf opts)) 0"]
    by (simp add: encodeHeader_def vh vs total l_remaining_eq [OF props] conv bindR_assoc bindR_eq_Ok Let_def split: prod.splits)
  then show ?thesis
    using assms(1)
    by (simp add: MarshalPublish_def validatePublishOpts_Ok [symmetric] Let_def publishLayout_encode_def headerSize_def
        vh vs copy_at_def)
qed

end
