(* ===== verification/Packet_Frame.thy ===== *)
theory Packet_Frame
  imports Publish_Packet
begin

text \<open>
  What the encoders and decoders of the other packets share: the fixed header in its five-byte
  array, the body filled in a pooled buffer, the property section that ends a packet, and the
  reason code and properties that trailing-field trimming may leave out.
\<close>

subsection \<open>Operations\<close>

text \<open>\<open>var fixedHdr [5]byte; fixedHdr[0] = b; vbiN, err := EncodeVarint(fixedHdr[1:], uint32(n))\<close>,
  then \<open>fixedHdr[:1+vbiN]\<close>.\<close>

definition fixedHdr :: "byte \<Rightarrow> nat \<Rightarrow> byte list gores" where
  "fixedHdr b n =
     bindR (EncodeVarint (replicate 4 0) (of_nat n)) (\<lambda>(v, vbiN). Ok (take (1 + vbiN) (b # v)))"

text \<open>\<open>readProperties\<close> on the last field of a packet.\<close>

definition readLastProperties :: "byte list \<Rightarrow> Properties gores" where
  "readLastProperties buf =
     mapErr (\<lambda>e. Errorf [ErrInvalidPacket, e])
       (bindR (readProperties buf) (\<lambda>(p, n). if n \<noteq> length buf then Err errTrailing else Ok p))"

text \<open>The reason code and properties that may be absent, each implied when the body ends before it.\<close>

definition decodeReasonProps :: "byte list \<Rightarrow> (ReasonCode \<times> Properties) gores" where
  "decodeReasonProps buf =
     (if length buf > 0 then
        bindR (index buf 0) (\<lambda>reason. bindR (slice_from buf 1) (\<lambda>buf.
          if length buf > 0 then bindR (readLastProperties buf) (\<lambda>p. Ok (reason, p))
          else Ok (reason, PropertiesFromBytes [])))
      else Ok (ReasonSuccess, PropertiesFromBytes []))"

subsection \<open>Lemmas\<close>

lemma fixedHdr_eq:
  assumes "n < 268435456"
  shows "fixedHdr b n = Ok (b # vbi n)"
proof -
  have un: "unat (of_nat n :: u32) = n" and le: "of_nat n \<le> MaxVarintValue"
    using assms by (simp_all add: unat_of_nat_u32 word_le_nat_alt MaxVarintValue_def)
  show ?thesis
    using EncodeVarint_stores [OF le, of "replicate 4 0"] length_vbi_le_4 [of n] assms
    by (simp add: fixedHdr_def un)
qed

lemma write_packet:
  assumes "pool_ok pool" and "length body < 268435456" and "stores w body"
  shows "bindR (fixedHdr h (length body)) (\<lambda>hdr. bindR (acquireBuf pool (length body)) (\<lambda>buf.
      bindR (w buf 0) (\<lambda>(buf, _). Ok [hdr, buf]))) = Ok [h # vbi (length body), body]"
proof -
  have "bindR (acquireBuf pool (length body)) (\<lambda>buf. bindR (w buf 0) (\<lambda>(buf, _). Ok [h # vbi (length body), buf])) =
      Ok [h # vbi (length body), body]"
    by (rule bind_acquireBuf [OF assms(1)]) (simp add: stores_exact [OF assms(3)])
  then show ?thesis by (simp add: fixedHdr_eq [OF assms(2)])
qed

lemma readLastProperties_enc:
  assumes "length ps < 268435456"
  shows "readLastProperties (vbi (length ps) @ ps) = Ok (PropertiesFromBytes ps)"
  using readProperties_enc [of ps "[]"] assms by (simp add: readLastProperties_def)

definition reason_props :: "ReasonCode \<Rightarrow> byte list \<Rightarrow> byte list" where
  "reason_props rc ps =
     (if ps = [] then if rc = ReasonSuccess then [] else [rc] else rc # vbi (length ps) @ ps)"

lemma decodeReasonProps_enc:
  assumes "length ps < 268435456"
  shows "decodeReasonProps (reason_props rc ps) = Ok (rc, PropertiesFromBytes ps)"
  using readLastProperties_enc [OF assms] by (simp add: decodeReasonProps_def reason_props_def)

lemma length_reason_props:
  "length ps < 268435456 \<Longrightarrow> length (reason_props rc ps) =
    (if ps \<noteq> [] \<or> rc \<noteq> ReasonSuccess
     then 1 + (if ps \<noteq> [] then VarintSize (of_nat (length ps)) + length ps else 0) else 0)"
  by (auto simp: reason_props_def VarintSize_of_nat)

lemma reason_props_stores:
  assumes "stores wp ps" and "length ps < 268435456" and "ps \<noteq> [] \<or> rc \<noteq> ReasonSuccess"
  shows "stores (\<lambda>buf off. bindR (set_index buf off rc) (\<lambda>buf.
      let off = off + 1 in
      if ps \<noteq> [] then bindR (writePropertiesPrefix buf off (length ps)) (\<lambda>(buf, off). wp buf off) else Ok (buf, off)))
    (reason_props rc ps)"
proof (cases "ps = []")
  case True
  then show ?thesis
    using assms(3) set_index_stores [of rc] by (simp add: reason_props_def)
next
  case False
  then show ?thesis
    using stores_id_then [OF stores_bind [OF writePropertiesPrefix_stores [OF assms(2)] assms(1)], of rc]
    by (simp add: reason_props_def)
qed

lemma readLastProperties_not_Panic: "length buf < 4294967296 \<Longrightarrow> readLastProperties buf \<noteq> Panic"
  unfolding readLastProperties_def by (intro no_panic) simp_all

lemma decodeReasonProps_not_Panic: "length buf < 4294967296 \<Longrightarrow> decodeReasonProps buf \<noteq> Panic"
  unfolding decodeReasonProps_def
  by (intro no_panic) (auto simp: readLastProperties_not_Panic slice_from_def Suc_le_eq split: if_splits)

end
