(* ===== verification/PubResp_Packet.thy ===== *)
theory PubResp_Packet
  imports Packet_Frame
begin

text \<open>
  PUBACK, PUBREC, PUBREL and PUBCOMP (\<open>PubResp\<close> of \<open>wire/publish.go\<close>), DISCONNECT, AUTH, PINGREQ
  and PINGRESP (\<open>wire/connect.go\<close>): the packets whose reason code and properties are trimmed when
  they are implied. \<open>Write...\<close> returns the buffers handed to the writer in order.
\<close>

subsection \<open>PUBACK, PUBREC, PUBREL, PUBCOMP\<close>

record PubResp =
  pr_PacketID :: u16
  pr_ReasonCode :: ReasonCode
  pr_Properties :: Properties
  pr_pktType :: PacketType

record PubRespOpts =
  ro_PacketID :: u16
  ro_ReasonCode :: ReasonCode
  ro_ReasonString :: gostring
  ro_UserProperties :: "UserProperty list"

definition validatePubRespOpts :: "PacketType \<Rightarrow> PubRespOpts \<Rightarrow> unit gores" where
  "validatePubRespOpts t opts =
     (if ro_PacketID opts = 0 then Err ErrPacketIDRequired
      else bindR (checkReasonCode t (ro_ReasonCode opts)) (\<lambda>_.
        bindR (checkString (ro_ReasonString opts)) (\<lambda>_. checkUserProps (ro_UserProperties opts))))"

definition writePubResp :: "bufpool \<Rightarrow> PacketType \<Rightarrow> byte \<Rightarrow> PubRespOpts \<Rightarrow> byte list list gores" where
  "writePubResp pool pktType flags opts =
     bindR (validatePubRespOpts pktType opts) (\<lambda>_.
       let propsLen = (if ro_ReasonString opts \<noteq> [] then 1 + 2 + length (ro_ReasonString opts) else 0)
             + userPropertiesLen (ro_UserProperties opts);
           hasProps = propsLen > 0;
           hasReason = (hasProps \<or> ro_ReasonCode opts \<noteq> ReasonSuccess);
           bodyLen = 2 + (if hasReason then 1 + (if hasProps then VarintSize (of_nat propsLen) + propsLen else 0) else 0)
       in bindR (fixedHdr (push_bit 4 pktType OR flags) bodyLen) (\<lambda>hdr.
          bindR (acquireBuf pool bodyLen) (\<lambda>buf.
          bindR (bindR (PutUint16 buf 0 (ro_PacketID opts)) (\<lambda>buf.
            let off = 2 in
            if hasReason then
              bindR (set_index buf off (ro_ReasonCode opts)) (\<lambda>buf.
              let off = off + 1 in
              if hasProps then
                bindR (writePropertiesPrefix buf off propsLen) (\<lambda>(buf, off).
                bindR (writePropertyString buf off PropReasonString (ro_ReasonString opts)) (\<lambda>(buf, off).
                writePropertyUserProps buf off (ro_UserProperties opts)))
              else Ok (buf, off))
            else Ok (buf, off))) (\<lambda>(buf, _). Ok [hdr, buf]))))"

definition WritePuback :: "bufpool \<Rightarrow> PubRespOpts \<Rightarrow> byte list list gores" where
  "WritePuback pool opts = writePubResp pool PUBACK 0x00 opts"

definition WritePubrec :: "bufpool \<Rightarrow> PubRespOpts \<Rightarrow> byte list list gores" where
  "WritePubrec pool opts = writePubResp pool PUBREC 0x00 opts"

definition WritePubrel :: "bufpool \<Rightarrow> PubRespOpts \<Rightarrow> byte list list gores" where
  "WritePubrel pool opts = writePubResp pool PUBREL 0x02 opts"

definition WritePubcomp :: "bufpool \<Rightarrow> PubRespOpts \<Rightarrow> byte list list gores" where
  "WritePubcomp pool opts = writePubResp pool PUBCOMP 0x00 opts"

definition decodePubResp :: "byte list \<Rightarrow> PacketType \<Rightarrow> byte \<Rightarrow> PubResp gores" where
  "decodePubResp frame pktType flags =
     (let expected = (if pktType = PUBREL then 0x02 else 0x00) in
      if flags \<noteq> expected then Err (Errorf [ErrInvalidPacket])
      else if length frame < 2 then Err (Errorf [ErrInvalidPacket])
      else bindR (Uint16 frame) (\<lambda>packetID. bindR (slice_from frame 2) (\<lambda>buf.
        bindR (decodeReasonProps buf) (\<lambda>(reason, props).
          Ok \<lparr>pr_PacketID = packetID, pr_ReasonCode = reason, pr_Properties = props, pr_pktType = pktType\<rparr>))))"

definition AppendPubResp :: "byte list \<Rightarrow> PacketType \<Rightarrow> u16 \<Rightarrow> ReasonCode \<Rightarrow> byte list" where
  "AppendPubResp dst t pid rc =
     (let flags = (if t = PUBREL then 0x02 else 0) in
      if rc = ReasonSuccess then dst @ [push_bit 4 t OR flags, 2, ucast (drop_bit 8 pid), ucast pid]
      else dst @ [push_bit 4 t OR flags, 3, ucast (drop_bit 8 pid), ucast pid, rc])"

subsection \<open>DISCONNECT\<close>

record Disconnect =
  di_ReasonCode :: ReasonCode
  di_Properties :: Properties

record DisconnectOpts =
  do_ReasonCode :: ReasonCode
  do_SessionExpiryInterval :: "u32 option"
  do_ReasonString :: gostring
  do_ServerReference :: gostring
  do_UserProperties :: "UserProperty list"

definition validateDisconnectOpts :: "DisconnectOpts \<Rightarrow> unit gores" where
  "validateDisconnectOpts opts =
     bindR (checkReasonCode DISCONNECT (do_ReasonCode opts)) (\<lambda>_.
     bindR (checkString (do_ReasonString opts)) (\<lambda>_.
     bindR (checkString (do_ServerReference opts)) (\<lambda>_. checkUserProps (do_UserProperties opts))))"

definition WriteDisconnect :: "bufpool \<Rightarrow> DisconnectOpts \<Rightarrow> byte list list gores" where
  "WriteDisconnect pool opts =
     bindR (validateDisconnectOpts opts) (\<lambda>_.
       let propsLen = (if do_SessionExpiryInterval opts \<noteq> None then 5 else 0)
             + (if do_ReasonString opts \<noteq> [] then 1 + 2 + length (do_ReasonString opts) else 0)
             + (if do_ServerReference opts \<noteq> [] then 1 + 2 + length (do_ServerReference opts) else 0)
             + userPropertiesLen (do_UserProperties opts);
           hasProps = propsLen > 0;
           hasReason = (hasProps \<or> do_ReasonCode opts \<noteq> ReasonNormalDisconnection);
           bodyLen = (if hasReason then 1 + (if hasProps then VarintSize (of_nat propsLen) + propsLen else 0) else 0)
       in bindR (fixedHdr (push_bit 4 DISCONNECT) bodyLen) (\<lambda>hdr.
          if bodyLen = 0 then Ok [hdr]
          else bindR (acquireBuf pool bodyLen) (\<lambda>buf.
          bindR (bindR (set_index buf 0 (do_ReasonCode opts)) (\<lambda>buf.
            let off = 1 in
            if hasProps then
              bindR (writePropertiesPrefix buf off propsLen) (\<lambda>(buf, off).
              bindR (writeProperty4 buf off PropSessionExpiryInterval (do_SessionExpiryInterval opts)) (\<lambda>(buf, off).
              bindR (writePropertyString buf off PropReasonString (do_ReasonString opts)) (\<lambda>(buf, off).
              bindR (writePropertyString buf off PropServerReference (do_ServerReference opts)) (\<lambda>(buf, off).
              writePropertyUserProps buf off (do_UserProperties opts)))))
            else Ok (buf, off))) (\<lambda>(buf, _). Ok [hdr, buf]))))"

definition decodeDisconnect :: "byte list \<Rightarrow> byte \<Rightarrow> Disconnect gores" where
  "decodeDisconnect frame flags =
     (if flags \<noteq> 0x00 then Err (Errorf [ErrInvalidPacket])
      else bindR (decodeReasonProps frame) (\<lambda>(reason, props).
        Ok \<lparr>di_ReasonCode = reason, di_Properties = props\<rparr>))"

subsection \<open>AUTH\<close>

record Auth =
  au_ReasonCode :: ReasonCode
  au_Properties :: Properties

record AuthOpts =
  ao_ReasonCode :: ReasonCode
  ao_AuthenticationMethod :: gostring
  ao_AuthenticationData :: "byte list option"
  ao_ReasonString :: gostring
  ao_UserProperties :: "UserProperty list"

definition validateAuthOpts :: "AuthOpts \<Rightarrow> unit gores" where
  "validateAuthOpts opts =
     bindR (checkReasonCode AUTH (ao_ReasonCode opts)) (\<lambda>_.
     bindR (checkString (ao_AuthenticationMethod opts)) (\<lambda>_.
     bindR (checkBinary (nil_bytes (ao_AuthenticationData opts))) (\<lambda>_.
     bindR (checkString (ao_ReasonString opts)) (\<lambda>_. checkUserProps (ao_UserProperties opts)))))"

definition WriteAuth :: "bufpool \<Rightarrow> AuthOpts \<Rightarrow> byte list list gores" where
  "WriteAuth pool opts =
     bindR (validateAuthOpts opts) (\<lambda>_.
       let propsLen = (if ao_AuthenticationMethod opts \<noteq> [] then 1 + 2 + length (ao_AuthenticationMethod opts) else 0)
             + (if ao_AuthenticationData opts \<noteq> None then 1 + 2 + length (nil_bytes (ao_AuthenticationData opts)) else 0)
             + (if ao_ReasonString opts \<noteq> [] then 1 + 2 + length (ao_ReasonString opts) else 0)
             + userPropertiesLen (ao_UserProperties opts);
           hasProps = propsLen > 0;
           hasReason = (hasProps \<or> ao_ReasonCode opts \<noteq> ReasonSuccess);
           bodyLen = (if hasReason then 1 + (if hasProps then VarintSize (of_nat propsLen) + propsLen else 0) else 0)
       in bindR (fixedHdr (push_bit 4 AUTH) bodyLen) (\<lambda>hdr.
          if bodyLen = 0 then Ok [hdr]
          else bindR (acquireBuf pool bodyLen) (\<lambda>buf.
          bindR (bindR (set_index buf 0 (ao_ReasonCode opts)) (\<lambda>buf.
            let off = 1 in
            if hasProps then
              bindR (writePropertiesPrefix buf off propsLen) (\<lambda>(buf, off).
              bindR (writePropertyString buf off PropAuthMethod (ao_AuthenticationMethod opts)) (\<lambda>(buf, off).
              bindR (writePropertyBinary buf off PropAuthData (ao_AuthenticationData opts)) (\<lambda>(buf, off).
              bindR (writePropertyString buf off PropReasonString (ao_ReasonString opts)) (\<lambda>(buf, off).
              writePropertyUserProps buf off (ao_UserProperties opts)))))
            else Ok (buf, off))) (\<lambda>(buf, _). Ok [hdr, buf]))))"

definition decodeAuth :: "byte list \<Rightarrow> byte \<Rightarrow> Auth gores" where
  "decodeAuth frame flags =
     (if flags \<noteq> 0x00 then Err (Errorf [ErrInvalidPacket])
      else bindR (decodeReasonProps frame) (\<lambda>(reason, props).
        Ok \<lparr>au_ReasonCode = reason, au_Properties = props\<rparr>))"

subsection \<open>PINGREQ and PINGRESP\<close>

definition WritePingreq :: "byte list" where
  "WritePingreq = [push_bit 4 PINGREQ, 0x00]"

definition WritePingresp :: "byte list" where
  "WritePingresp = [push_bit 4 PINGRESP, 0x00]"

subsection \<open>Specification\<close>

definition pubresp_props :: "PubRespOpts \<Rightarrow> property list" where
  "pubresp_props opts = pS PropReasonString (ro_ReasonString opts) @ pU (ro_UserProperties opts)"

definition pubresp_body :: "PubRespOpts \<Rightarrow> byte list" where
  "pubresp_body opts = be16 (ro_PacketID opts) @ reason_props (ro_ReasonCode opts) (enc_props (pubresp_props opts))"

definition disconnect_props :: "DisconnectOpts \<Rightarrow> property list" where
  "disconnect_props opts =
     p4 PropSessionExpiryInterval (do_SessionExpiryInterval opts) @ pS PropReasonString (do_ReasonString opts) @
     pS PropServerReference (do_ServerReference opts) @ pU (do_UserProperties opts)"

definition disconnect_body :: "DisconnectOpts \<Rightarrow> byte list" where
  "disconnect_body opts = reason_props (do_ReasonCode opts) (enc_props (disconnect_props opts))"

definition auth_props :: "AuthOpts \<Rightarrow> property list" where
  "auth_props opts =
     pS PropAuthMethod (ao_AuthenticationMethod opts) @ pB PropAuthData (ao_AuthenticationData opts) @
     pS PropReasonString (ao_ReasonString opts) @ pU (ao_UserProperties opts)"

definition auth_body :: "AuthOpts \<Rightarrow> byte list" where
  "auth_body opts = reason_props (ao_ReasonCode opts) (enc_props (auth_props opts))"

subsection \<open>Encoding\<close>

lemma writePubResp_eq:
  assumes "pool_ok pool" and "length (pubresp_body opts) < 268435456"
  shows "writePubResp pool t flags opts =
    bindR (validatePubRespOpts t opts) (\<lambda>_.
      Ok [(push_bit 4 t OR flags) # vbi (length (pubresp_body opts)), pubresp_body opts])"
proof -
  let ?ps = "enc_props (pubresp_props opts)" and ?rc = "ro_ReasonCode opts"
  have len: "(if ro_ReasonString opts \<noteq> [] then 1 + 2 + length (ro_ReasonString opts) else 0)
      + userPropertiesLen (ro_UserProperties opts) = length ?ps"
    by (simp add: pubresp_props_def userPropertiesLen_eq pS_def)
  have small: "length ?ps < 268435456"
    using assms(2) by (auto simp: pubresp_body_def reason_props_def split: if_splits)
  have body: "2 + (if length ?ps > 0 \<or> ?rc \<noteq> ReasonSuccess
      then 1 + (if length ?ps > 0 then VarintSize (of_nat (length ?ps)) + length ?ps else 0) else 0) = length (pubresp_body opts)"
    by (simp add: pubresp_body_def length_reason_props [OF small])
  have wp: "stores (\<lambda>buf off. bindR (writePropertyString buf off PropReasonString (ro_ReasonString opts)) (\<lambda>(buf, off).
      writePropertyUserProps buf off (ro_UserProperties opts))) ?ps"
    unfolding pubresp_props_def enc_props_simps by (intro stores_bind writes)
  have "stores (\<lambda>buf off. bindR (bindR (PutUint16 buf off (ro_PacketID opts)) (\<lambda>buf. Ok (buf, off + 2))) (\<lambda>(buf, off).
      if length ?ps > 0 \<or> ?rc \<noteq> ReasonSuccess then
        bindR (set_index buf off ?rc) (\<lambda>buf. let off = off + 1 in
          if length ?ps > 0 then bindR (writePropertiesPrefix buf off (length ?ps)) (\<lambda>(buf, off).
            bindR (writePropertyString buf off PropReasonString (ro_ReasonString opts)) (\<lambda>(buf, off).
              writePropertyUserProps buf off (ro_UserProperties opts)))
          else Ok (buf, off))
      else Ok (buf, off))) (pubresp_body opts)"
    unfolding pubresp_body_def
  proof (rule stores_bind [OF PutUint16_stores], cases "length ?ps > 0 \<or> ?rc \<noteq> ReasonSuccess")
    case True
    then show "stores (\<lambda>buf off. if length ?ps > 0 \<or> ?rc \<noteq> ReasonSuccess then
        bindR (set_index buf off ?rc) (\<lambda>buf. let off = off + 1 in
          if length ?ps > 0 then bindR (writePropertiesPrefix buf off (length ?ps)) (\<lambda>(buf, off).
            bindR (writePropertyString buf off PropReasonString (ro_ReasonString opts)) (\<lambda>(buf, off).
              writePropertyUserProps buf off (ro_UserProperties opts)))
          else Ok (buf, off))
      else Ok (buf, off)) (reason_props ?rc ?ps)"
      using reason_props_stores [OF wp small, of ?rc] by simp
  qed (simp add: reason_props_def stores_id)
  from write_packet [OF assms(1,2) this, of "push_bit 4 t OR flags"]
  show ?thesis
    unfolding writePubResp_def Let_def len body
    by (simp add: bindR_assoc numeral_2_eq_2 numeral_3_eq_3 cong: if_cong)
qed

lemma trimmed_body:
  assumes "length ps < 268435456"
  shows "(if length ps > 0 \<or> rc \<noteq> ReasonSuccess
      then 1 + (if length ps > 0 then VarintSize (of_nat (length ps)) + length ps else 0) else 0) = length (reason_props rc ps)"
  by (simp add: length_reason_props [OF assms])

lemma write_trimmed:
  assumes "pool_ok pool" and "length (reason_props rc ps) < 268435456" and "length ps < 268435456" and "stores wp ps"
  shows "bindR (fixedHdr h (length (reason_props rc ps))) (\<lambda>hdr.
      if length (reason_props rc ps) = 0 then Ok [hdr]
      else bindR (acquireBuf pool (length (reason_props rc ps))) (\<lambda>buf.
        bindR (bindR (set_index buf 0 rc) (\<lambda>buf.
          let off = 1 in
          if length ps > 0 then bindR (writePropertiesPrefix buf off (length ps)) (\<lambda>(buf, off). wp buf off)
          else Ok (buf, off))) (\<lambda>(buf, _). Ok [hdr, buf]))) =
    Ok ((h # vbi (length (reason_props rc ps))) # (if reason_props rc ps = [] then [] else [reason_props rc ps]))"
proof (cases "ps \<noteq> [] \<or> rc \<noteq> ReasonSuccess")
  case True
  then have ne: "reason_props rc ps \<noteq> []" by (auto simp: reason_props_def)
  show ?thesis
    using write_packet [OF assms(1,2) reason_props_stores [OF assms(4,3) True], of h] ne by simp
next
  case False
  then have "reason_props rc ps = []" by (simp add: reason_props_def)
  then show ?thesis by (simp add: fixedHdr_eq)
qed

lemma reason_props_small: "length (reason_props rc ps) < 268435456 \<Longrightarrow> length ps < 268435456"
  by (auto simp: reason_props_def split: if_splits)

lemma WriteDisconnect_eq:
  assumes "pool_ok pool" and "length (disconnect_body opts) < 268435456"
  shows "WriteDisconnect pool opts =
    bindR (validateDisconnectOpts opts) (\<lambda>_.
      Ok ((push_bit 4 DISCONNECT # vbi (length (disconnect_body opts))) #
          (if disconnect_body opts = [] then [] else [disconnect_body opts])))"
proof -
  let ?ps = "enc_props (disconnect_props opts)"
  have len: "(if do_SessionExpiryInterval opts \<noteq> None then 5 else 0)
      + (if do_ReasonString opts \<noteq> [] then 1 + 2 + length (do_ReasonString opts) else 0)
      + (if do_ServerReference opts \<noteq> [] then 1 + 2 + length (do_ServerReference opts) else 0)
      + userPropertiesLen (do_UserProperties opts) = length ?ps"
    by (auto simp: disconnect_props_def userPropertiesLen_eq pS_def p4_def split: option.split)
  have small: "length ?ps < 268435456"
    using assms(2) reason_props_small by (simp add: disconnect_body_def)
  have wp: "stores (\<lambda>buf off.
      bindR (writeProperty4 buf off PropSessionExpiryInterval (do_SessionExpiryInterval opts)) (\<lambda>(buf, off).
      bindR (writePropertyString buf off PropReasonString (do_ReasonString opts)) (\<lambda>(buf, off).
      bindR (writePropertyString buf off PropServerReference (do_ServerReference opts)) (\<lambda>(buf, off).
      writePropertyUserProps buf off (do_UserProperties opts))))) ?ps"
    unfolding disconnect_props_def enc_props_simps by (intro stores_bind writes)
  show ?thesis
    unfolding WriteDisconnect_def Let_def len trimmed_body [OF small] disconnect_body_def
    by (simp only: write_trimmed [OF assms(1) assms(2) [unfolded disconnect_body_def] small wp, of "push_bit 4 DISCONNECT", unfolded Let_def])
qed

lemma WriteAuth_eq:
  assumes "pool_ok pool" and "length (auth_body opts) < 268435456"
  shows "WriteAuth pool opts =
    bindR (validateAuthOpts opts) (\<lambda>_.
      Ok ((push_bit 4 AUTH # vbi (length (auth_body opts))) # (if auth_body opts = [] then [] else [auth_body opts])))"
proof -
  let ?ps = "enc_props (auth_props opts)"
  have len: "(if ao_AuthenticationMethod opts \<noteq> [] then 1 + 2 + length (ao_AuthenticationMethod opts) else 0)
      + (if ao_AuthenticationData opts \<noteq> None then 1 + 2 + length (nil_bytes (ao_AuthenticationData opts)) else 0)
      + (if ao_ReasonString opts \<noteq> [] then 1 + 2 + length (ao_ReasonString opts) else 0)
      + userPropertiesLen (ao_UserProperties opts) = length ?ps"
    by (auto simp: auth_props_def userPropertiesLen_eq pS_def pB_def split: option.split)
  have small: "length ?ps < 268435456"
    using assms(2) reason_props_small by (simp add: auth_body_def)
  have wp: "stores (\<lambda>buf off.
      bindR (writePropertyString buf off PropAuthMethod (ao_AuthenticationMethod opts)) (\<lambda>(buf, off).
      bindR (writePropertyBinary buf off PropAuthData (ao_AuthenticationData opts)) (\<lambda>(buf, off).
      bindR (writePropertyString buf off PropReasonString (ao_ReasonString opts)) (\<lambda>(buf, off).
      writePropertyUserProps buf off (ao_UserProperties opts))))) ?ps"
    unfolding auth_props_def enc_props_simps by (intro stores_bind writes)
  show ?thesis
    unfolding WriteAuth_def Let_def len trimmed_body [OF small] auth_body_def
    by (simp only: write_trimmed [OF assms(1) assms(2) [unfolded auth_body_def] small wp, of "push_bit 4 AUTH", unfolded Let_def])
qed

lemma AppendPubResp_eq:
  assumes "t \<in> {PUBACK, PUBREC, PUBREL, PUBCOMP}"
  shows "AppendPubResp dst t pid rc =
    (let opts = \<lparr>ro_PacketID = pid, ro_ReasonCode = rc, ro_ReasonString = [], ro_UserProperties = []\<rparr>
     in dst @ (push_bit 4 t OR fixedFlags t) # vbi (length (pubresp_body opts)) @ pubresp_body opts)"
proof -
  have "vbi 2 = [2]" "vbi 3 = [3]" by (simp_all add: vbi.simps)
  then show ?thesis
    using assms
    by (auto simp: AppendPubResp_def pubresp_body_def pubresp_props_def reason_props_def pS_def pU_def be16_def
        fixedFlags_def Let_def numeral_2_eq_2 [symmetric] numeral_3_eq_3 [symmetric])
qed

subsection \<open>Validation\<close>

lemma validatePubRespOpts_Ok:
  "validatePubRespOpts t opts = Ok () \<longleftrightarrow>
     ro_PacketID opts \<noteq> 0 \<and> ro_ReasonCode opts \<in> set (reasonCodes t) \<and>
     length (ro_ReasonString opts) < 65536 \<and> utf8_ok (ro_ReasonString opts) \<and>
     list_all wf_user (ro_UserProperties opts) \<and>
     list_all (\<lambda>up. utf8_ok (Key up) \<and> utf8_ok (Value up)) (ro_UserProperties opts)"
  by (auto simp: validatePubRespOpts_def bindR_eq_Ok check_Ok)

lemma validateDisconnectOpts_Ok:
  "validateDisconnectOpts opts = Ok () \<longleftrightarrow>
     do_ReasonCode opts \<in> set (reasonCodes DISCONNECT) \<and>
     length (do_ReasonString opts) < 65536 \<and> utf8_ok (do_ReasonString opts) \<and>
     length (do_ServerReference opts) < 65536 \<and> utf8_ok (do_ServerReference opts) \<and>
     list_all wf_user (do_UserProperties opts) \<and>
     list_all (\<lambda>up. utf8_ok (Key up) \<and> utf8_ok (Value up)) (do_UserProperties opts)"
  by (auto simp: validateDisconnectOpts_def bindR_eq_Ok check_Ok)

lemma validateAuthOpts_Ok:
  "validateAuthOpts opts = Ok () \<longleftrightarrow>
     ao_ReasonCode opts \<in> set (reasonCodes AUTH) \<and>
     length (ao_AuthenticationMethod opts) < 65536 \<and> utf8_ok (ao_AuthenticationMethod opts) \<and>
     length (nil_bytes (ao_AuthenticationData opts)) < 65536 \<and>
     length (ao_ReasonString opts) < 65536 \<and> utf8_ok (ao_ReasonString opts) \<and>
     list_all wf_user (ao_UserProperties opts) \<and>
     list_all (\<lambda>up. utf8_ok (Key up) \<and> utf8_ok (Value up)) (ao_UserProperties opts)"
  by (auto simp: validateAuthOpts_def bindR_eq_Ok check_Ok)

subsection \<open>Decoding\<close>

lemma decodePubResp_enc:
  assumes "length (pubresp_body opts) < 268435456"
  shows "decodePubResp (pubresp_body opts) t (if t = PUBREL then 0x02 else 0x00) =
    Ok \<lparr>pr_PacketID = ro_PacketID opts, pr_ReasonCode = ro_ReasonCode opts,
        pr_Properties = PropertiesFromBytes (enc_props (pubresp_props opts)), pr_pktType = t\<rparr>"
proof -
  have "length (enc_props (pubresp_props opts)) < 268435456"
    by (rule reason_props_small [of "ro_ReasonCode opts"]) (use assms in \<open>simp add: pubresp_body_def\<close>)
  then show ?thesis
    by (simp add: decodePubResp_def pubresp_body_def decodeReasonProps_enc)
qed

lemma decodeDisconnect_enc:
  assumes "length (disconnect_body opts) < 268435456"
  shows "decodeDisconnect (disconnect_body opts) 0 =
    Ok \<lparr>di_ReasonCode = do_ReasonCode opts, di_Properties = PropertiesFromBytes (enc_props (disconnect_props opts))\<rparr>"
  using assms reason_props_small by (simp add: decodeDisconnect_def disconnect_body_def decodeReasonProps_enc)

lemma decodeAuth_enc:
  assumes "length (auth_body opts) < 268435456"
  shows "decodeAuth (auth_body opts) 0 =
    Ok \<lparr>au_ReasonCode = ao_ReasonCode opts, au_Properties = PropertiesFromBytes (enc_props (auth_props opts))\<rparr>"
  using assms reason_props_small by (simp add: decodeAuth_def auth_body_def decodeReasonProps_enc)

lemma trimmed_decoders_not_Panic:
  assumes "length frame < 4294967296"
  shows "decodePubResp frame t flags \<noteq> Panic" "decodeDisconnect frame flags \<noteq> Panic" "decodeAuth frame flags \<noteq> Panic"
  unfolding decodePubResp_def decodeDisconnect_def decodeAuth_def Let_def
  using assms
  by (intro no_panic; auto simp: decodeReasonProps_not_Panic slice_from_def split: if_splits)+

end
