(* ===== verification/Subscribe_Packet.thy ===== *)
theory Subscribe_Packet
  imports PubResp_Packet
begin

text \<open>
  SUBSCRIBE, SUBACK, UNSUBSCRIBE and UNSUBACK (\<open>wire/subscribe.go\<close> with their option checks of
  \<open>wire/validate.go\<close>). The decoders' loops run while bytes are left; their termination rests on
  every item being at least two bytes long.
\<close>

subsection \<open>SUBSCRIBE\<close>

record SubscribeFilter =
  sf_Topic :: gostring
  sf_QoS :: byte
  sf_NoLocal :: bool
  sf_RetainAsPublished :: bool
  sf_RetainHandling :: byte

record Subscribe =
  sb_PacketID :: u16
  sb_Properties :: Properties
  sb_Filters :: "SubscribeFilter list"

record SubscribeOpts =
  so_PacketID :: u16
  so_Filters :: "SubscribeFilter list"
  so_SubscriptionIdentifier :: "u32 option"
  so_UserProperties :: "UserProperty list"

fun validateFilters :: "SubscribeFilter list \<Rightarrow> unit gores" where
  "validateFilters [] = Ok ()"
| "validateFilters (f # fs) =
     bindR (ValidTopicFilter (sf_Topic f)) (\<lambda>_.
       if sf_QoS f > 2 then Err ErrInvalidQoS
       else if sf_RetainHandling f > 2 then Err (Errorf [ErrInvalidField])
       else if sf_NoLocal f \<and> IsSharedFilter (sf_Topic f) then Err (Errorf [ErrInvalidField])
       else validateFilters fs)"

definition validateSubscribeOpts :: "SubscribeOpts \<Rightarrow> unit gores" where
  "validateSubscribeOpts opts =
     (if so_PacketID opts = 0 then Err ErrPacketIDRequired
      else if length (so_Filters opts) = 0 then Err ErrEmptyFilterList
      else bindR (validateFilters (so_Filters opts)) (\<lambda>_.
        bindR (case so_SubscriptionIdentifier opts of
                 None \<Rightarrow> Ok ()
               | Some n \<Rightarrow> if n = 0 \<or> n > MaxVarintValue then Err (Errorf [ErrInvalidField]) else Ok ()) (\<lambda>_.
        checkUserProps (so_UserProperties opts))))"

definition encodeSubscribeOptions :: "SubscribeFilter \<Rightarrow> byte" where
  "encodeSubscribeOptions f =
     (let b = sf_QoS f AND 0x03;
          b = (if sf_NoLocal f then b OR 0x04 else b);
          b = (if sf_RetainAsPublished f then b OR 0x08 else b)
      in b OR push_bit 4 (sf_RetainHandling f AND 0x03))"

definition decodeSubscribeFilter :: "gostring \<Rightarrow> byte \<Rightarrow> SubscribeFilter" where
  "decodeSubscribeFilter topic ob =
     \<lparr>sf_Topic = topic, sf_QoS = ob AND 0x03, sf_NoLocal = (ob AND 0x04 \<noteq> 0),
      sf_RetainAsPublished = (ob AND 0x08 \<noteq> 0), sf_RetainHandling = drop_bit 4 ob AND 0x03\<rparr>"

text \<open>The optional Subscription Identifier; the error of \<open>EncodeVarint\<close> is dropped.\<close>

definition writeSubscriptionIdentifier :: "byte list \<Rightarrow> nat \<Rightarrow> u32 option \<Rightarrow> (byte list \<times> nat) gores" where
  "writeSubscriptionIdentifier buf off sid =
     (case sid of None \<Rightarrow> Ok (buf, off)
      | Some v \<Rightarrow> bindR (set_index buf off PropSubscriptionIdentifier) (\<lambda>buf.
          let off = off + 1 in
          bindR (slice_from buf off) (\<lambda>sub.
            case EncodeVarint sub v of
              Ok (sub, n) \<Rightarrow> Ok (take off buf @ sub, off + n)
            | Err _ \<Rightarrow> Ok (buf, off)
            | Panic \<Rightarrow> Panic)))"

fun writeFilters :: "byte list \<Rightarrow> nat \<Rightarrow> SubscribeFilter list \<Rightarrow> (byte list \<times> nat) gores" where
  "writeFilters buf off [] = Ok (buf, off)"
| "writeFilters buf off (f # fs) =
     bindR (writeUTF8String buf off (sf_Topic f)) (\<lambda>(buf, off).
     bindR (bindR (set_index buf off (encodeSubscribeOptions f)) (\<lambda>buf. Ok (buf, off + 1))) (\<lambda>(buf, off).
     writeFilters buf off fs))"

definition WriteSubscribe :: "bufpool \<Rightarrow> SubscribeOpts \<Rightarrow> byte list list gores" where
  "WriteSubscribe pool opts =
     bindR (validateSubscribeOpts opts) (\<lambda>_.
       if length (so_Filters opts) = 0 then Err ErrEmptyFilterList
       else let propsLen = (case so_SubscriptionIdentifier opts of None \<Rightarrow> 0 | Some v \<Rightarrow> 1 + VarintSize v)
                  + userPropertiesLen (so_UserProperties opts);
                payloadLen = sum_list (map (\<lambda>f. 2 + length (sf_Topic f) + 1) (so_Filters opts));
                varHdrLen = 2 + VarintSize (of_nat propsLen) + propsLen;
                bodyLen = varHdrLen + payloadLen
       in bindR (fixedHdr (push_bit 4 SUBSCRIBE OR 0x02) bodyLen) (\<lambda>hdr.
          bindR (acquireBuf pool bodyLen) (\<lambda>buf.
          bindR (bindR (bindR (PutUint16 buf 0 (so_PacketID opts)) (\<lambda>buf. Ok (buf, 0 + 2))) (\<lambda>(buf, off).
            bindR (writePropertiesPrefix buf off propsLen) (\<lambda>(buf, off).
            bindR (writeSubscriptionIdentifier buf off (so_SubscriptionIdentifier opts)) (\<lambda>(buf, off).
            bindR (writePropertyUserProps buf off (so_UserProperties opts)) (\<lambda>(buf, off).
            writeFilters buf off (so_Filters opts)))))) (\<lambda>(buf, _). Ok [hdr, buf]))))"

function readFilters :: "byte list \<Rightarrow> SubscribeFilter list gores" where
  "readFilters buf =
     (if length buf > 0 then
        bindR (mapErr (\<lambda>e. Errorf [ErrInvalidPacket, e]) (readUTF8String buf)) (\<lambda>(topic, tn).
        bindR (slice_from buf tn) (\<lambda>buf.
        if length buf < 1 then Err (Errorf [ErrInvalidPacket])
        else bindR (index buf 0) (\<lambda>ob. bindR (slice_from buf 1) (\<lambda>buf.
          bindR (readFilters buf) (\<lambda>fs. Ok (decodeSubscribeFilter topic ob # fs))))))
      else Ok [])"
  by pat_completeness auto
termination
  by (relation "measure length") (auto simp: slice_from_def split: if_splits)

declare readFilters.simps [simp del]

definition decodeSubscribe :: "byte list \<Rightarrow> byte \<Rightarrow> Subscribe gores" where
  "decodeSubscribe frame flags =
     (if flags \<noteq> 0x02 then Err (Errorf [ErrInvalidPacket])
      else if length frame < 2 then Err (Errorf [ErrInvalidPacket])
      else bindR (Uint16 frame) (\<lambda>packetID. bindR (slice_from frame 2) (\<lambda>buf.
        bindR (mapErr (\<lambda>e. Errorf [ErrInvalidPacket, e]) (readProperties buf)) (\<lambda>(props, n).
        bindR (slice_from buf n) (\<lambda>buf.
        bindR (readFilters buf) (\<lambda>fs.
        if length fs = 0 then Err (Errorf [ErrInvalidPacket])
        else Ok \<lparr>sb_PacketID = packetID, sb_Properties = props, sb_Filters = fs\<rparr>))))))"

subsection \<open>UNSUBSCRIBE\<close>

record Unsubscribe =
  us_PacketID :: u16
  us_Properties :: Properties
  us_Topics :: "gostring list"

record UnsubscribeOpts =
  uo_PacketID :: u16
  uo_Topics :: "gostring list"
  uo_UserProperties :: "UserProperty list"

fun validateTopics :: "gostring list \<Rightarrow> unit gores" where
  "validateTopics [] = Ok ()"
| "validateTopics (f # fs) = bindR (ValidTopicFilter f) (\<lambda>_. validateTopics fs)"

definition validateUnsubscribeOpts :: "UnsubscribeOpts \<Rightarrow> unit gores" where
  "validateUnsubscribeOpts opts =
     (if uo_PacketID opts = 0 then Err ErrPacketIDRequired
      else if length (uo_Topics opts) = 0 then Err ErrEmptyFilterList
      else bindR (validateTopics (uo_Topics opts)) (\<lambda>_. checkUserProps (uo_UserProperties opts)))"

fun writeTopics :: "byte list \<Rightarrow> nat \<Rightarrow> gostring list \<Rightarrow> (byte list \<times> nat) gores" where
  "writeTopics buf off [] = Ok (buf, off)"
| "writeTopics buf off (t # ts) = bindR (writeUTF8String buf off t) (\<lambda>(buf, off). writeTopics buf off ts)"

definition WriteUnsubscribe :: "bufpool \<Rightarrow> UnsubscribeOpts \<Rightarrow> byte list list gores" where
  "WriteUnsubscribe pool opts =
     bindR (validateUnsubscribeOpts opts) (\<lambda>_.
       if length (uo_Topics opts) = 0 then Err ErrEmptyFilterList
       else let propsLen = userPropertiesLen (uo_UserProperties opts);
                payloadLen = sum_list (map (\<lambda>t. 2 + length t) (uo_Topics opts));
                varHdrLen = 2 + VarintSize (of_nat propsLen) + propsLen;
                bodyLen = varHdrLen + payloadLen
       in bindR (fixedHdr (push_bit 4 UNSUBSCRIBE OR 0x02) bodyLen) (\<lambda>hdr.
          bindR (acquireBuf pool bodyLen) (\<lambda>buf.
          bindR (bindR (bindR (PutUint16 buf 0 (uo_PacketID opts)) (\<lambda>buf. Ok (buf, 0 + 2))) (\<lambda>(buf, off).
            bindR (writePropertiesPrefix buf off propsLen) (\<lambda>(buf, off).
            bindR (writePropertyUserProps buf off (uo_UserProperties opts)) (\<lambda>(buf, off).
            writeTopics buf off (uo_Topics opts))))) (\<lambda>(buf, _). Ok [hdr, buf]))))"

function readTopics :: "byte list \<Rightarrow> gostring list gores" where
  "readTopics buf =
     (if length buf > 0 then
        bindR (mapErr (\<lambda>e. Errorf [ErrInvalidPacket, e]) (readUTF8String buf)) (\<lambda>(topic, tn).
        bindR (slice_from buf tn) (\<lambda>buf.
        bindR (readTopics buf) (\<lambda>ts. Ok (topic # ts))))
      else Ok [])"
  by pat_completeness auto
termination
  by (relation "measure length") (auto simp: slice_from_def split: if_splits dest: readUTF8String_OkD(1))

declare readTopics.simps [simp del]

definition decodeUnsubscribe :: "byte list \<Rightarrow> byte \<Rightarrow> Unsubscribe gores" where
  "decodeUnsubscribe frame flags =
     (if flags \<noteq> 0x02 then Err (Errorf [ErrInvalidPacket])
      else if length frame < 2 then Err (Errorf [ErrInvalidPacket])
      else bindR (Uint16 frame) (\<lambda>packetID. bindR (slice_from frame 2) (\<lambda>buf.
        bindR (mapErr (\<lambda>e. Errorf [ErrInvalidPacket, e]) (readProperties buf)) (\<lambda>(props, n).
        bindR (slice_from buf n) (\<lambda>buf.
        bindR (readTopics buf) (\<lambda>ts.
        if length ts = 0 then Err (Errorf [ErrInvalidPacket])
        else Ok \<lparr>us_PacketID = packetID, us_Properties = props, us_Topics = ts\<rparr>))))))"

subsection \<open>SUBACK and UNSUBACK\<close>

record Suback =
  sa_PacketID :: u16
  sa_Properties :: Properties
  sa_ReasonCodes :: "ReasonCode list"

record SubackOpts =
  sko_PacketID :: u16
  sko_ReasonCodes :: "ReasonCode list"
  sko_ReasonString :: gostring
  sko_UserProperties :: "UserProperty list"

fun checkReasonCodes :: "PacketType \<Rightarrow> ReasonCode list \<Rightarrow> unit gores" where
  "checkReasonCodes t [] = Ok ()"
| "checkReasonCodes t (rc # rcs) = bindR (checkReasonCode t rc) (\<lambda>_. checkReasonCodes t rcs)"

definition validateAckList ::
    "PacketType \<Rightarrow> u16 \<Rightarrow> ReasonCode list \<Rightarrow> gostring \<Rightarrow> UserProperty list \<Rightarrow> unit gores" where
  "validateAckList t pid codes reason props =
     (if pid = 0 then Err ErrPacketIDRequired
      else if length codes = 0 then Err (Errorf [ErrInvalidField])
      else bindR (checkReasonCodes t codes) (\<lambda>_. bindR (checkString reason) (\<lambda>_. checkUserProps props)))"

fun writeCodes :: "byte list \<Rightarrow> nat \<Rightarrow> ReasonCode list \<Rightarrow> (byte list \<times> nat) gores" where
  "writeCodes buf off [] = Ok (buf, off)"
| "writeCodes buf off (c # cs) =
     bindR (bindR (set_index buf off c) (\<lambda>buf. Ok (buf, off + 1))) (\<lambda>(buf, off). writeCodes buf off cs)"

definition writeSubAckLike ::
    "bufpool \<Rightarrow> PacketType \<Rightarrow> u16 \<Rightarrow> ReasonCode list \<Rightarrow> gostring \<Rightarrow> UserProperty list \<Rightarrow> byte list list gores" where
  "writeSubAckLike pool pktType packetID codes reasonString userProps =
     (if length codes = 0 then Err (Errorf [ErrInvalidPacket])
      else let propsLen = (if reasonString \<noteq> [] then 1 + 2 + length reasonString else 0) + userPropertiesLen userProps;
               varHdrLen = 2 + VarintSize (of_nat propsLen) + propsLen;
               payloadLen = length codes;
               bodyLen = varHdrLen + payloadLen
       in bindR (fixedHdr (push_bit 4 pktType) bodyLen) (\<lambda>hdr.
          bindR (acquireBuf pool bodyLen) (\<lambda>buf.
          bindR (bindR (bindR (PutUint16 buf 0 packetID) (\<lambda>buf. Ok (buf, 0 + 2))) (\<lambda>(buf, off).
            bindR (writePropertiesPrefix buf off propsLen) (\<lambda>(buf, off).
            bindR (writePropertyString buf off PropReasonString reasonString) (\<lambda>(buf, off).
            bindR (writePropertyUserProps buf off userProps) (\<lambda>(buf, off).
            writeCodes buf off codes))))) (\<lambda>(buf, _). Ok [hdr, buf]))))"

definition WriteSuback :: "bufpool \<Rightarrow> SubackOpts \<Rightarrow> byte list list gores" where
  "WriteSuback pool opts =
     bindR (validateAckList SUBACK (sko_PacketID opts) (sko_ReasonCodes opts) (sko_ReasonString opts) (sko_UserProperties opts))
       (\<lambda>_. writeSubAckLike pool SUBACK (sko_PacketID opts) (sko_ReasonCodes opts) (sko_ReasonString opts) (sko_UserProperties opts))"

definition WriteUnsuback :: "bufpool \<Rightarrow> SubackOpts \<Rightarrow> byte list list gores" where
  "WriteUnsuback pool opts =
     bindR (validateAckList UNSUBACK (sko_PacketID opts) (sko_ReasonCodes opts) (sko_ReasonString opts) (sko_UserProperties opts))
       (\<lambda>_. writeSubAckLike pool UNSUBACK (sko_PacketID opts) (sko_ReasonCodes opts) (sko_ReasonString opts) (sko_UserProperties opts))"

definition readSubAckLike :: "byte list \<Rightarrow> (u16 \<times> Properties \<times> ReasonCode list) gores" where
  "readSubAckLike buf =
     (if length buf < 2 then Err (Errorf [ErrInvalidPacket])
      else bindR (Uint16 buf) (\<lambda>packetID. bindR (slice_from buf 2) (\<lambda>buf.
        bindR (mapErr (\<lambda>e. Errorf [ErrInvalidPacket, e]) (readProperties buf)) (\<lambda>(props, n).
        bindR (slice_from buf n) (\<lambda>buf.
        if length buf = 0 then Err (Errorf [ErrInvalidPacket]) else Ok (packetID, props, buf))))))"

definition decodeSuback :: "byte list \<Rightarrow> byte \<Rightarrow> Suback gores" where
  "decodeSuback frame flags =
     (if flags \<noteq> 0x00 then Err (Errorf [ErrInvalidPacket])
      else bindR (readSubAckLike frame) (\<lambda>(packetID, props, codes).
        Ok \<lparr>sa_PacketID = packetID, sa_Properties = props, sa_ReasonCodes = codes\<rparr>))"

text \<open>\<open>Unsuback\<close> and \<open>UnsubackOpts\<close> have the fields of \<open>Suback\<close> and \<open>SubackOpts\<close>.\<close>

definition decodeUnsuback :: "byte list \<Rightarrow> byte \<Rightarrow> Suback gores" where
  "decodeUnsuback frame flags =
     (if flags \<noteq> 0x00 then Err (Errorf [ErrInvalidPacket])
      else bindR (readSubAckLike frame) (\<lambda>(packetID, props, codes).
        Ok \<lparr>sa_PacketID = packetID, sa_Properties = props, sa_ReasonCodes = codes\<rparr>))"

subsection \<open>Specification\<close>

definition subscribe_props :: "SubscribeOpts \<Rightarrow> property list" where
  "subscribe_props opts = pV PropSubscriptionIdentifier (so_SubscriptionIdentifier opts) @ pU (so_UserProperties opts)"

definition filter_bytes :: "SubscribeFilter \<Rightarrow> byte list" where
  "filter_bytes f = str16 (sf_Topic f) @ [encodeSubscribeOptions f]"

definition prop_section :: "byte list \<Rightarrow> byte list" where
  "prop_section ps = vbi (length ps) @ ps"

definition subscribe_body :: "SubscribeOpts \<Rightarrow> byte list" where
  "subscribe_body opts =
     be16 (so_PacketID opts) @ prop_section (enc_props (subscribe_props opts)) @ concat (map filter_bytes (so_Filters opts))"

definition unsubscribe_body :: "UnsubscribeOpts \<Rightarrow> byte list" where
  "unsubscribe_body opts =
     be16 (uo_PacketID opts) @ prop_section (enc_props (pU (uo_UserProperties opts))) @ concat (map str16 (uo_Topics opts))"

definition suback_props :: "SubackOpts \<Rightarrow> property list" where
  "suback_props opts = pS PropReasonString (sko_ReasonString opts) @ pU (sko_UserProperties opts)"

definition suback_body :: "SubackOpts \<Rightarrow> byte list" where
  "suback_body opts =
     be16 (sko_PacketID opts) @ prop_section (enc_props (suback_props opts)) @ sko_ReasonCodes opts"

subsection \<open>Encoding\<close>

lemma length_prop_section:
  "length ps < 268435456 \<Longrightarrow> length (prop_section ps) = VarintSize (of_nat (length ps)) + length ps"
  by (simp add: prop_section_def VarintSize_of_nat)

lemma prop_section_stores:
  assumes "length ps < 268435456" and "stores wp ps" and "stores wr r"
  shows "stores (\<lambda>buf off. bindR (writePropertiesPrefix buf off (length ps)) (\<lambda>(buf, off).
      bindR (wp buf off) (\<lambda>(buf, off). wr buf off))) (prop_section ps @ r)"
  using stores_bind [OF writePropertiesPrefix_stores [OF assms(1)] stores_bind [OF assms(2,3)]]
  by (simp add: prop_section_def)

lemma prop_section_then_stores:
  assumes "length (ps @ qs) < 268435456" and "stores wp ps" and "stores wq qs" and "stores wr r"
  shows "stores (\<lambda>buf off. bindR (writePropertiesPrefix buf off (length (ps @ qs))) (\<lambda>(buf, off).
      bindR (wp buf off) (\<lambda>(buf, off). bindR (wq buf off) (\<lambda>(buf, off). wr buf off)))) (prop_section (ps @ qs) @ r)"
  using stores_bind [OF writePropertiesPrefix_stores [OF assms(1)] stores_bind [OF assms(2) stores_bind [OF assms(3,4)]]]
  by (simp add: prop_section_def)

lemma writeSubscriptionIdentifier_stores:
  assumes "\<And>n. sid = Some n \<Longrightarrow> n \<le> MaxVarintValue"
  shows "stores (\<lambda>buf off. writeSubscriptionIdentifier buf off sid) (enc_props (pV PropSubscriptionIdentifier sid))"
proof (cases sid)
  case (Some n)
  then have n: "unat n < 268435456"
    using assms by (auto simp: word_le_nat_alt MaxVarintValue_def)
  show ?thesis
    using stores_id_then [OF writePropertiesPrefix_stores [OF n], of PropSubscriptionIdentifier]
    by (simp add: writeSubscriptionIdentifier_def writePropertiesPrefix_def pV_def Some Let_def)
qed (simp add: writeSubscriptionIdentifier_def pV_def stores_id)

lemma writeFilters_stores: "stores (\<lambda>buf off. writeFilters buf off fs) (concat (map filter_bytes fs))"
proof (induction fs)
  case (Cons f fs)
  show ?case
    using stores_bind [OF writeUTF8String_stores [of "sf_Topic f"]
        stores_bind [OF set_index_stores [of "encodeSubscribeOptions f"] Cons.IH]]
    by (simp add: filter_bytes_def)
qed (simp add: stores_id)

lemma writeTopics_stores: "stores (\<lambda>buf off. writeTopics buf off ts) (concat (map str16 ts))"
proof (induction ts)
  case (Cons t ts)
  show ?case
    using stores_bind [OF writeUTF8String_stores [of t] Cons.IH] by simp
qed (simp add: stores_id)

lemma writeCodes_stores: "stores (\<lambda>buf off. writeCodes buf off cs) cs"
proof (induction cs)
  case (Cons c cs)
  show ?case
    using stores_bind [OF set_index_stores [of c] Cons.IH] by simp
qed (simp add: stores_id)

lemma validateFilters_Ok:
  "validateFilters fs = Ok () \<longleftrightarrow>
     list_all (\<lambda>f. valid_filter (sf_Topic f) \<and> sf_QoS f \<le> 2 \<and> sf_RetainHandling f \<le> 2 \<and>
       \<not> (sf_NoLocal f \<and> IsSharedFilter (sf_Topic f))) fs"
  by (induction fs) (auto simp: bindR_eq_Ok ValidTopicFilter_Ok not_less)

lemma validateSubscribeOpts_Ok:
  "validateSubscribeOpts opts = Ok () \<longleftrightarrow>
     so_PacketID opts \<noteq> 0 \<and> so_Filters opts \<noteq> [] \<and>
     list_all (\<lambda>f. valid_filter (sf_Topic f) \<and> sf_QoS f \<le> 2 \<and> sf_RetainHandling f \<le> 2 \<and>
       \<not> (sf_NoLocal f \<and> IsSharedFilter (sf_Topic f))) (so_Filters opts) \<and>
     (\<forall>n. so_SubscriptionIdentifier opts = Some n \<longrightarrow> n \<noteq> 0 \<and> n \<le> MaxVarintValue) \<and>
     list_all wf_user (so_UserProperties opts) \<and>
     list_all (\<lambda>up. utf8_ok (Key up) \<and> utf8_ok (Value up)) (so_UserProperties opts)"
  by (auto simp: validateSubscribeOpts_def bindR_eq_Ok check_Ok validateFilters_Ok not_less split: option.splits)

lemma validateTopics_Ok: "validateTopics ts = Ok () \<longleftrightarrow> list_all valid_filter ts"
  by (induction ts) (auto simp: bindR_eq_Ok ValidTopicFilter_Ok)

lemma validateUnsubscribeOpts_Ok:
  "validateUnsubscribeOpts opts = Ok () \<longleftrightarrow>
     uo_PacketID opts \<noteq> 0 \<and> uo_Topics opts \<noteq> [] \<and> list_all valid_filter (uo_Topics opts) \<and>
     list_all wf_user (uo_UserProperties opts) \<and>
     list_all (\<lambda>up. utf8_ok (Key up) \<and> utf8_ok (Value up)) (uo_UserProperties opts)"
  by (auto simp: validateUnsubscribeOpts_def bindR_eq_Ok check_Ok validateTopics_Ok)

lemma validateAckList_Ok:
  "validateAckList t pid codes reason props = Ok () \<longleftrightarrow>
     pid \<noteq> 0 \<and> codes \<noteq> [] \<and> list_all (\<lambda>rc. rc \<in> set (reasonCodes t)) codes \<and> length reason < 65536 \<and> utf8_ok reason \<and>
     list_all wf_user props \<and> list_all (\<lambda>up. utf8_ok (Key up) \<and> utf8_ok (Value up)) props"
proof -
  have "checkReasonCodes t cs = Ok () \<longleftrightarrow> list_all (\<lambda>rc. rc \<in> set (reasonCodes t)) cs" for cs
    by (induction cs) (auto simp: bindR_eq_Ok check_Ok)
  then show ?thesis
    by (auto simp: validateAckList_def bindR_eq_Ok check_Ok)
qed

lemma length_filters: "sum_list (map (\<lambda>f. 2 + length (sf_Topic f) + 1) fs) = length (concat (map filter_bytes fs))"
  by (induction fs) (simp_all add: filter_bytes_def)

lemma length_topics: "sum_list (map (\<lambda>t. 2 + length t) ts) = length (concat (map str16 ts))"
  by (induction ts) simp_all

lemma WriteSubscribe_eq:
  assumes "pool_ok pool" and "length (subscribe_body opts) < 268435456"
  shows "WriteSubscribe pool opts =
    bindR (validateSubscribeOpts opts) (\<lambda>_.
      Ok [(push_bit 4 SUBSCRIBE OR 0x02) # vbi (length (subscribe_body opts)), subscribe_body opts])"
proof (cases "validateSubscribeOpts opts = Ok ()")
  case True
  then have ne: "so_Filters opts \<noteq> []" and sid: "\<And>n. so_SubscriptionIdentifier opts = Some n \<Longrightarrow> n \<le> MaxVarintValue"
    by (auto simp: validateSubscribeOpts_Ok)
  let ?ps = "enc_props (subscribe_props opts)"
  have small: "length ?ps < 268435456"
    using assms(2) by (simp add: subscribe_body_def prop_section_def)
  have vs: "VarintSize n = length (vbi (unat n))" if "n \<le> MaxVarintValue" for n
    using VarintSize_vbi that by simp
  have len: "(case so_SubscriptionIdentifier opts of None \<Rightarrow> 0 | Some v \<Rightarrow> 1 + VarintSize v)
      + userPropertiesLen (so_UserProperties opts) = length ?ps"
    using sid by (auto simp: subscribe_props_def userPropertiesLen_eq pV_def vs split: option.split)
  have body: "2 + VarintSize (of_nat (length ?ps)) + length ?ps
      + sum_list (map (\<lambda>f. 2 + length (sf_Topic f) + 1) (so_Filters opts)) = length (subscribe_body opts)"
    unfolding length_filters by (simp add: subscribe_body_def length_prop_section [OF small])
  have st: "stores (\<lambda>buf off. bindR (bindR (PutUint16 buf off (so_PacketID opts)) (\<lambda>buf. Ok (buf, off + 2))) (\<lambda>(buf, off).
      bindR (writePropertiesPrefix buf off (length ?ps)) (\<lambda>(buf, off).
      bindR (writeSubscriptionIdentifier buf off (so_SubscriptionIdentifier opts)) (\<lambda>(buf, off).
      bindR (writePropertyUserProps buf off (so_UserProperties opts)) (\<lambda>(buf, off).
      writeFilters buf off (so_Filters opts)))))) (subscribe_body opts)"
    using small unfolding subscribe_body_def subscribe_props_def enc_props_simps
    by (intro stores_bind [OF PutUint16_stores] prop_section_then_stores writeSubscriptionIdentifier_stores [OF sid]
        writePropertyUserProps_stores writeFilters_stores) simp_all
  show ?thesis
    unfolding WriteSubscribe_def Let_def len body
    using ne by (simp add: True write_packet [OF assms(1,2) st, simplified])
next
  case False
  then obtain e where "validateSubscribeOpts opts = Err e \<or> validateSubscribeOpts opts = Panic"
    by (cases "validateSubscribeOpts opts") auto
  then show ?thesis by (auto simp: WriteSubscribe_def)
qed

lemma WriteUnsubscribe_eq:
  assumes "pool_ok pool" and "length (unsubscribe_body opts) < 268435456"
  shows "WriteUnsubscribe pool opts =
    bindR (validateUnsubscribeOpts opts) (\<lambda>_.
      Ok [(push_bit 4 UNSUBSCRIBE OR 0x02) # vbi (length (unsubscribe_body opts)), unsubscribe_body opts])"
proof (cases "validateUnsubscribeOpts opts = Ok ()")
  case True
  then have ne: "uo_Topics opts \<noteq> []"
    by (auto simp: validateUnsubscribeOpts_Ok)
  let ?ps = "enc_props (pU (uo_UserProperties opts))"
  have small: "length ?ps < 268435456"
    using assms(2) by (simp add: unsubscribe_body_def prop_section_def)
  have body: "2 + VarintSize (of_nat (length ?ps)) + length ?ps
      + sum_list (map (\<lambda>t. 2 + length t) (uo_Topics opts)) = length (unsubscribe_body opts)"
    unfolding length_topics by (simp add: unsubscribe_body_def length_prop_section [OF small])
  have st: "stores (\<lambda>buf off. bindR (bindR (PutUint16 buf off (uo_PacketID opts)) (\<lambda>buf. Ok (buf, off + 2))) (\<lambda>(buf, off).
      bindR (writePropertiesPrefix buf off (length ?ps)) (\<lambda>(buf, off).
      bindR (writePropertyUserProps buf off (uo_UserProperties opts)) (\<lambda>(buf, off).
      writeTopics buf off (uo_Topics opts))))) (unsubscribe_body opts)"
    using small unfolding unsubscribe_body_def
    by (intro stores_bind [OF PutUint16_stores] prop_section_stores writePropertyUserProps_stores writeTopics_stores)
  show ?thesis
    unfolding WriteUnsubscribe_def Let_def userPropertiesLen_eq body
    using ne by (simp add: True write_packet [OF assms(1,2) st, simplified])
next
  case False
  then obtain e where "validateUnsubscribeOpts opts = Err e \<or> validateUnsubscribeOpts opts = Panic"
    by (cases "validateUnsubscribeOpts opts") auto
  then show ?thesis by (auto simp: WriteUnsubscribe_def)
qed

lemma writeSubAckLike_eq:
  assumes "pool_ok pool" and "length (suback_body opts) < 268435456" and "sko_ReasonCodes opts \<noteq> []"
  shows "writeSubAckLike pool t (sko_PacketID opts) (sko_ReasonCodes opts) (sko_ReasonString opts) (sko_UserProperties opts) =
    Ok [push_bit 4 t # vbi (length (suback_body opts)), suback_body opts]"
proof -
  let ?ps = "enc_props (suback_props opts)"
  have small: "length ?ps < 268435456"
    using assms(2) by (simp add: suback_body_def prop_section_def)
  have len: "(if sko_ReasonString opts \<noteq> [] then 1 + 2 + length (sko_ReasonString opts) else 0)
      + userPropertiesLen (sko_UserProperties opts) = length ?ps"
    by (simp add: suback_props_def userPropertiesLen_eq pS_def)
  have body: "2 + VarintSize (of_nat (length ?ps)) + length ?ps + length (sko_ReasonCodes opts) = length (suback_body opts)"
    by (simp add: suback_body_def length_prop_section [OF small])
  have st: "stores (\<lambda>buf off. bindR (bindR (PutUint16 buf off (sko_PacketID opts)) (\<lambda>buf. Ok (buf, off + 2))) (\<lambda>(buf, off).
      bindR (writePropertiesPrefix buf off (length ?ps)) (\<lambda>(buf, off).
      bindR (writePropertyString buf off PropReasonString (sko_ReasonString opts)) (\<lambda>(buf, off).
      bindR (writePropertyUserProps buf off (sko_UserProperties opts)) (\<lambda>(buf, off).
      writeCodes buf off (sko_ReasonCodes opts)))))) (suback_body opts)"
    using small unfolding suback_body_def suback_props_def enc_props_simps
    by (intro stores_bind [OF PutUint16_stores] prop_section_then_stores writePropertyString_stores
        writePropertyUserProps_stores writeCodes_stores) simp_all
  show ?thesis
    unfolding writeSubAckLike_def Let_def len body
    using assms(3) by (simp add: write_packet [OF assms(1,2) st, simplified])
qed

subsection \<open>Decoding\<close>

lemma filter_options_roundtrip:
  assumes "sf_QoS f \<le> 2" and "sf_RetainHandling f \<le> 2"
  shows "decodeSubscribeFilter (sf_Topic f) (encodeSubscribeOptions f) = f"
  using qos_cases [OF assms(1)] qos_cases [OF assms(2)]
  by (cases f) (auto simp: decodeSubscribeFilter_def encodeSubscribeOptions_def Let_def)

lemma readFilters_enc:
  "list_all (\<lambda>f. length (sf_Topic f) < 65536 \<and> sf_QoS f \<le> 2 \<and> sf_RetainHandling f \<le> 2) fs \<Longrightarrow>
    readFilters (concat (map filter_bytes fs)) = Ok fs"
proof (induction fs)
  case (Cons f fs)
  then show ?case
    by (subst readFilters.simps)
      (simp add: filter_bytes_def [of f] filter_options_roundtrip nth_append)
qed (simp add: readFilters.simps)

lemma readTopics_enc: "list_all (\<lambda>t. length t < 65536) ts \<Longrightarrow> readTopics (concat (map str16 ts)) = Ok ts"
proof (induction ts)
  case (Cons t ts)
  then show ?case
    by (subst readTopics.simps) simp
qed (simp add: readTopics.simps)

lemma valid_filter_length: "valid_filter f \<Longrightarrow> length f < 65536"
  by (simp add: valid_filter_def)

lemma read_section:
  assumes "length ps < 268435456" and "length r < 268435456"
  shows "readProperties (prop_section ps @ r) = Ok (PropertiesFromBytes ps, length (prop_section ps))"
  using readProperties_enc [OF assms] by (simp add: prop_section_def)

lemma decodeSubscribe_enc:
  assumes "validateSubscribeOpts opts = Ok ()" and "length (subscribe_body opts) < 268435456"
  shows "decodeSubscribe (subscribe_body opts) 0x02 =
    Ok \<lparr>sb_PacketID = so_PacketID opts, sb_Properties = PropertiesFromBytes (enc_props (subscribe_props opts)),
        sb_Filters = so_Filters opts\<rparr>"
proof -
  have "list_all (\<lambda>f. length (sf_Topic f) < 65536 \<and> sf_QoS f \<le> 2 \<and> sf_RetainHandling f \<le> 2) (so_Filters opts)"
    and ne: "so_Filters opts \<noteq> []"
    using assms(1) by (auto simp: validateSubscribeOpts_Ok list_all_iff valid_filter_length)
  moreover have "length (enc_props (subscribe_props opts)) < 268435456"
    "length (concat (map filter_bytes (so_Filters opts))) < 268435456"
    using assms(2) by (simp_all add: subscribe_body_def prop_section_def)
  ultimately show ?thesis
    by (simp add: decodeSubscribe_def subscribe_body_def read_section readFilters_enc)
qed

lemma decodeUnsubscribe_enc:
  assumes "validateUnsubscribeOpts opts = Ok ()" and "length (unsubscribe_body opts) < 268435456"
  shows "decodeUnsubscribe (unsubscribe_body opts) 0x02 =
    Ok \<lparr>us_PacketID = uo_PacketID opts, us_Properties = PropertiesFromBytes (enc_props (pU (uo_UserProperties opts))),
        us_Topics = uo_Topics opts\<rparr>"
proof -
  have "list_all (\<lambda>t. length t < 65536) (uo_Topics opts)" and ne: "uo_Topics opts \<noteq> []"
    using assms(1) by (auto simp: validateUnsubscribeOpts_Ok list_all_iff valid_filter_length)
  moreover have "length (enc_props (pU (uo_UserProperties opts))) < 268435456"
    "length (concat (map str16 (uo_Topics opts))) < 268435456"
    using assms(2) by (simp_all add: unsubscribe_body_def prop_section_def)
  ultimately show ?thesis
    by (simp add: decodeUnsubscribe_def unsubscribe_body_def read_section readTopics_enc)
qed

lemma readSubAckLike_enc:
  assumes "sko_ReasonCodes opts \<noteq> []" and "length (suback_body opts) < 268435456"
  shows "readSubAckLike (suback_body opts) =
    Ok (sko_PacketID opts, PropertiesFromBytes (enc_props (suback_props opts)), sko_ReasonCodes opts)"
proof -
  have "length (enc_props (suback_props opts)) < 268435456" "length (sko_ReasonCodes opts) < 268435456"
    using assms(2) by (simp_all add: suback_body_def prop_section_def)
  then show ?thesis
    using assms(1) by (simp add: readSubAckLike_def suback_body_def read_section)
qed

lemma readProperties_len: "readProperties buf = Ok (p, n) \<Longrightarrow> n \<le> length buf"
  by (auto simp: readProperties_def bindR_eq_Ok slice_def split: if_splits)

lemma readFilters_not_Panic: "readFilters buf \<noteq> Panic"
proof (induction buf rule: measure_induct_rule [of length])
  case (less buf)
  show ?case
    by (subst readFilters.simps, intro no_panic)
      (auto simp: slice_from_def Suc_le_eq less dest: readUTF8String_OkD(3) split: if_splits)
qed

lemma readTopics_not_Panic: "readTopics buf \<noteq> Panic"
proof (induction buf rule: measure_induct_rule [of length])
  case (less buf)
  show ?case
    by (subst readTopics.simps, intro no_panic)
      (auto simp: slice_from_def less dest: readUTF8String_OkD split: if_splits)
qed

lemma subscribe_decoders_not_Panic:
  assumes "length frame < 4294967296"
  shows "decodeSubscribe frame flags \<noteq> Panic" "decodeUnsubscribe frame flags \<noteq> Panic"
    "decodeSuback frame flags \<noteq> Panic" "decodeUnsuback frame flags \<noteq> Panic"
  unfolding decodeSubscribe_def decodeUnsubscribe_def decodeSuback_def decodeUnsuback_def readSubAckLike_def
  using assms
  by (intro no_panic; auto simp: readFilters_not_Panic readTopics_not_Panic slice_from_def
      dest: readProperties_len split: if_splits)+

end
