(* ===== verification/Connect_Packet.thy ===== *)
theory Connect_Packet
  imports Subscribe_Packet
begin

text \<open>
  CONNECT with its Will, and CONNACK (\<open>wire/connect.go\<close> with the option checks of
  \<open>wire/validate.go\<close>). \<open>Password\<close> and the data fields may be nil and are options; a Will that is
  nil is \<open>None\<close>.
\<close>

subsection \<open>CONNECT\<close>

definition ProtocolName :: gostring where
  "ProtocolName = [0x4D, 0x51, 0x54, 0x54]"

abbreviation (input) ProtocolVersion :: byte where "ProtocolVersion \<equiv> 5"

record Will =
  w_Topic :: gostring
  w_Payload :: "byte list"
  w_QoS :: byte
  w_Retain :: bool
  w_Properties :: Properties

record Connect =
  c_ProtocolName :: gostring
  c_ProtocolVersion :: byte
  c_CleanStart :: bool
  c_KeepAlive :: u16
  c_Properties :: Properties
  c_ClientID :: gostring
  c_Username :: gostring
  c_Password :: "byte list option"
  c_Will :: "Will option"

record WillOpts =
  wo_Topic :: gostring
  wo_Payload :: "byte list"
  wo_QoS :: byte
  wo_Retain :: bool
  wo_WillDelayInterval :: "u32 option"
  wo_PayloadFormatIndicator :: "byte option"
  wo_MessageExpiryInterval :: "u32 option"
  wo_ContentType :: gostring
  wo_ResponseTopic :: gostring
  wo_CorrelationData :: "byte list option"
  wo_UserProperties :: "UserProperty list"

record ConnectOpts =
  co_ClientID :: gostring
  co_CleanStart :: bool
  co_KeepAlive :: u16
  co_Username :: gostring
  co_Password :: "byte list option"
  co_Will :: "WillOpts option"
  co_SessionExpiryInterval :: "u32 option"
  co_ReceiveMaximum :: "u16 option"
  co_MaximumPacketSize :: "u32 option"
  co_TopicAliasMaximum :: u16
  co_RequestResponseInformation :: "byte option"
  co_RequestProblemInformation :: "byte option"
  co_UserProperties :: "UserProperty list"
  co_AuthenticationMethod :: gostring
  co_AuthenticationData :: "byte list option"

definition validateWillOpts :: "WillOpts \<Rightarrow> unit gores" where
  "validateWillOpts w =
     (if wo_Topic w = [] then Err (Errorf [ErrInvalidTopic])
      else bindR (mapErr (\<lambda>e. Errorf [e]) (ValidTopicName (wo_Topic w))) (\<lambda>_.
        if wo_QoS w > 2 then Err ErrInvalidQoS
        else bindR (if wo_ResponseTopic w \<noteq> [] then mapErr (\<lambda>e. Errorf [e]) (ValidTopicName (wo_ResponseTopic w)) else Ok ()) (\<lambda>_.
        bindR (checkBool (wo_PayloadFormatIndicator w)) (\<lambda>_.
        bindR (checkString (wo_ContentType w)) (\<lambda>_.
        bindR (checkBinary (wo_Payload w)) (\<lambda>_.
        bindR (checkBinary (nil_bytes (wo_CorrelationData w))) (\<lambda>_.
        checkUserProps (wo_UserProperties w))))))))"

definition validateConnectOpts :: "ConnectOpts \<Rightarrow> unit gores" where
  "validateConnectOpts opts =
     bindR (checkString (co_ClientID opts)) (\<lambda>_.
     bindR (checkString (co_Username opts)) (\<lambda>_.
     bindR (checkBinary (nil_bytes (co_Password opts))) (\<lambda>_.
     bindR (case co_Will opts of None \<Rightarrow> Ok () | Some w \<Rightarrow> validateWillOpts w) (\<lambda>_.
     if co_ReceiveMaximum opts = Some 0 then Err (Errorf [ErrInvalidField])
     else if co_MaximumPacketSize opts = Some 0 then Err (Errorf [ErrInvalidField])
     else bindR (checkBool (co_RequestResponseInformation opts)) (\<lambda>_.
     bindR (checkBool (co_RequestProblemInformation opts)) (\<lambda>_.
     bindR (checkString (co_AuthenticationMethod opts)) (\<lambda>_.
     if co_AuthenticationData opts \<noteq> None \<and> co_AuthenticationMethod opts = [] then Err (Errorf [ErrInvalidField])
     else bindR (checkBinary (nil_bytes (co_AuthenticationData opts))) (\<lambda>_.
     checkUserProps (co_UserProperties opts)))))))))"

definition encodeConnectFlags :: "ConnectOpts \<Rightarrow> byte" where
  "encodeConnectFlags opts =
     (let f = (0 :: byte);
          f = (if co_CleanStart opts then f OR 0x02 else f);
          f = (case co_Will opts of
                 None \<Rightarrow> f
               | Some w \<Rightarrow> (let f = f OR 0x04;
                                f = f OR push_bit 3 (wo_QoS w AND 0x03)
                            in if wo_Retain w then f OR 0x20 else f));
          f = (if co_Password opts \<noteq> None then f OR 0x40 else f)
      in if co_Username opts \<noteq> [] then f OR 0x80 else f)"

definition connectPropsLen :: "ConnectOpts \<Rightarrow> nat" where
  "connectPropsLen opts =
     (if co_SessionExpiryInterval opts \<noteq> None then 5 else 0)
     + (if co_ReceiveMaximum opts \<noteq> None then 3 else 0)
     + (if co_MaximumPacketSize opts \<noteq> None then 5 else 0)
     + (if co_TopicAliasMaximum opts \<noteq> 0 then 3 else 0)
     + (if co_RequestResponseInformation opts \<noteq> None then 2 else 0)
     + (if co_RequestProblemInformation opts \<noteq> None then 2 else 0)
     + (if co_AuthenticationMethod opts \<noteq> [] then 1 + 2 + length (co_AuthenticationMethod opts) else 0)
     + (if co_AuthenticationData opts \<noteq> None then 1 + 2 + length (nil_bytes (co_AuthenticationData opts)) else 0)
     + userPropertiesLen (co_UserProperties opts)"

definition writeConnectProps :: "byte list \<Rightarrow> nat \<Rightarrow> ConnectOpts \<Rightarrow> (byte list \<times> nat) gores" where
  "writeConnectProps buf off opts =
     bindR (writeProperty4 buf off PropSessionExpiryInterval (co_SessionExpiryInterval opts)) (\<lambda>(buf, off).
     bindR (writeProperty2P buf off PropReceiveMaximum (co_ReceiveMaximum opts)) (\<lambda>(buf, off).
     bindR (writeProperty4 buf off PropMaximumPacketSize (co_MaximumPacketSize opts)) (\<lambda>(buf, off).
     bindR (writeProperty2 buf off PropTopicAliasMaximum (co_TopicAliasMaximum opts)) (\<lambda>(buf, off).
     bindR (writeProperty1 buf off PropRequestResponseInfo (co_RequestResponseInformation opts)) (\<lambda>(buf, off).
     bindR (writeProperty1 buf off PropRequestProblemInfo (co_RequestProblemInformation opts)) (\<lambda>(buf, off).
     bindR (writePropertyString buf off PropAuthMethod (co_AuthenticationMethod opts)) (\<lambda>(buf, off).
     bindR (writePropertyBinary buf off PropAuthData (co_AuthenticationData opts)) (\<lambda>(buf, off).
     writePropertyUserProps buf off (co_UserProperties opts)))))))))"

definition willPropsLength :: "WillOpts \<Rightarrow> nat" where
  "willPropsLength w =
     (if wo_WillDelayInterval w \<noteq> None then 5 else 0)
     + (if wo_PayloadFormatIndicator w \<noteq> None then 2 else 0)
     + (if wo_MessageExpiryInterval w \<noteq> None then 5 else 0)
     + (if wo_ContentType w \<noteq> [] then 1 + 2 + length (wo_ContentType w) else 0)
     + (if wo_ResponseTopic w \<noteq> [] then 1 + 2 + length (wo_ResponseTopic w) else 0)
     + (if wo_CorrelationData w \<noteq> None then 1 + 2 + length (nil_bytes (wo_CorrelationData w)) else 0)
     + userPropertiesLen (wo_UserProperties w)"

definition writeWillProps :: "byte list \<Rightarrow> nat \<Rightarrow> WillOpts \<Rightarrow> (byte list \<times> nat) gores" where
  "writeWillProps buf off w =
     bindR (writeProperty4 buf off PropWillDelayInterval (wo_WillDelayInterval w)) (\<lambda>(buf, off).
     bindR (writeProperty1 buf off PropPayloadFormat (wo_PayloadFormatIndicator w)) (\<lambda>(buf, off).
     bindR (writeProperty4 buf off PropMessageExpiryInterval (wo_MessageExpiryInterval w)) (\<lambda>(buf, off).
     bindR (writePropertyString buf off PropContentType (wo_ContentType w)) (\<lambda>(buf, off).
     bindR (writePropertyString buf off PropResponseTopic (wo_ResponseTopic w)) (\<lambda>(buf, off).
     bindR (writePropertyBinary buf off PropCorrelationData (wo_CorrelationData w)) (\<lambda>(buf, off).
     writePropertyUserProps buf off (wo_UserProperties w)))))))"

definition WriteConnect :: "bufpool \<Rightarrow> ConnectOpts \<Rightarrow> byte list list gores" where
  "WriteConnect pool opts =
     bindR (validateConnectOpts opts) (\<lambda>_.
       let propsLen = connectPropsLen opts;
           willPropsLen = (case co_Will opts of None \<Rightarrow> 0 | Some w \<Rightarrow> willPropsLength w);
           varHdrLen = 2 + length ProtocolName + 1 + 1 + 2 + VarintSize (of_nat propsLen) + propsLen;
           payloadLen = 2 + length (co_ClientID opts)
             + (case co_Will opts of None \<Rightarrow> 0
                | Some w \<Rightarrow> VarintSize (of_nat willPropsLen) + willPropsLen
                    + (2 + length (wo_Topic w)) + (2 + length (wo_Payload w)))
             + (if co_Username opts \<noteq> [] then 2 + length (co_Username opts) else 0)
             + (if co_Password opts \<noteq> None then 2 + length (nil_bytes (co_Password opts)) else 0);
           bodyLen = varHdrLen + payloadLen
       in bindR (fixedHdr (push_bit 4 CONNECT) bodyLen) (\<lambda>hdr.
          bindR (acquireBuf pool bodyLen) (\<lambda>buf.
          bindR (bindR (writeUTF8String buf 0 ProtocolName) (\<lambda>(buf, off).
            bindR (bindR (set_index buf off ProtocolVersion) (\<lambda>buf. Ok (buf, off + 1))) (\<lambda>(buf, off).
            bindR (bindR (set_index buf off (encodeConnectFlags opts)) (\<lambda>buf. Ok (buf, off + 1))) (\<lambda>(buf, off).
            bindR (bindR (PutUint16 buf off (co_KeepAlive opts)) (\<lambda>buf. Ok (buf, off + 2))) (\<lambda>(buf, off).
            bindR (writePropertiesPrefix buf off propsLen) (\<lambda>(buf, off).
            bindR (writeConnectProps buf off opts) (\<lambda>(buf, off).
            bindR (writeUTF8String buf off (co_ClientID opts)) (\<lambda>(buf, off).
            bindR (case co_Will opts of
                     None \<Rightarrow> Ok (buf, off)
                   | Some w \<Rightarrow>
                       bindR (writePropertiesPrefix buf off willPropsLen) (\<lambda>(buf, off).
                       bindR (writeWillProps buf off w) (\<lambda>(buf, off).
                       bindR (writeUTF8String buf off (wo_Topic w)) (\<lambda>(buf, off).
                       writeBinaryData buf off (wo_Payload w))))) (\<lambda>(buf, off).
            bindR (if co_Username opts \<noteq> [] then writeUTF8String buf off (co_Username opts) else Ok (buf, off)) (\<lambda>(buf, off).
            case co_Password opts of None \<Rightarrow> Ok (buf, off) | Some pw \<Rightarrow> writeBinaryData buf off pw))))))))))
          (\<lambda>(buf, _). Ok [hdr, buf]))))"

text \<open>The optional payload fields of \<open>decodeConnect\<close>, each with the bytes behind it.\<close>

definition decodeWill :: "byte \<Rightarrow> byte list \<Rightarrow> (Will option \<times> byte list) gores" where
  "decodeWill connFlags buf =
     (let willFlag = (connFlags AND 0x04 \<noteq> 0);
          willQoS = drop_bit 3 connFlags AND 0x03;
          willRetain = (connFlags AND 0x20 \<noteq> 0)
      in if willFlag then
           bindR (mapErr (\<lambda>e. Errorf [ErrInvalidPacket, e]) (readProperties buf)) (\<lambda>(willProps, m).
           bindR (slice_from buf m) (\<lambda>buf.
           bindR (mapErr (\<lambda>e. Errorf [ErrInvalidPacket, e]) (readUTF8String buf)) (\<lambda>(willTopic, m).
           bindR (slice_from buf m) (\<lambda>buf.
           bindR (mapErr (\<lambda>e. Errorf [ErrInvalidPacket, e]) (readBinaryData buf)) (\<lambda>(willPayload, m).
           bindR (slice_from buf m) (\<lambda>buf.
             Ok (Some \<lparr>w_Topic = willTopic, w_Payload = willPayload, w_QoS = willQoS,
                       w_Retain = willRetain, w_Properties = willProps\<rparr>, buf)))))))
         else if willQoS \<noteq> 0 \<or> willRetain then Err (Errorf [ErrInvalidPacket])
         else Ok (None, buf))"

definition decodeConnect :: "byte list \<Rightarrow> byte \<Rightarrow> Connect gores" where
  "decodeConnect frame flags =
     (if flags \<noteq> 0x00 then Err (Errorf [ErrInvalidPacket])
      else let buf = frame in
        bindR (mapErr (\<lambda>e. Errorf [ErrInvalidPacket, e]) (readUTF8String buf)) (\<lambda>(protocolName, n).
        bindR (slice_from buf n) (\<lambda>buf.
        if protocolName \<noteq> ProtocolName then Err (Errorf [ErrInvalidProtocol])
        else if length buf < 1 then Err (Errorf [ErrInvalidPacket])
        else bindR (index buf 0) (\<lambda>version. bindR (slice_from buf 1) (\<lambda>buf.
        if version \<noteq> ProtocolVersion then Err (Errorf [ErrInvalidProtocol])
        else if length buf < 1 then Err (Errorf [ErrInvalidPacket])
        else bindR (index buf 0) (\<lambda>connFlags. bindR (slice_from buf 1) (\<lambda>buf.
        if connFlags AND 0x01 \<noteq> 0 then Err (Errorf [ErrInvalidPacket])
        else if length buf < 2 then Err (Errorf [ErrInvalidPacket])
        else bindR (Uint16 buf) (\<lambda>keepAlive. bindR (slice_from buf 2) (\<lambda>buf.
        bindR (mapErr (\<lambda>e. Errorf [ErrInvalidPacket, e]) (readProperties buf)) (\<lambda>(props, n).
        bindR (slice_from buf n) (\<lambda>buf.
        bindR (mapErr (\<lambda>e. Errorf [ErrInvalidPacket, e]) (readUTF8String buf)) (\<lambda>(clientID, n).
        bindR (slice_from buf n) (\<lambda>buf.
        bindR (decodeWill connFlags buf) (\<lambda>(will, buf).
        bindR (if connFlags AND 0x80 \<noteq> 0 then
                 bindR (mapErr (\<lambda>e. Errorf [ErrInvalidPacket, e]) (readUTF8String buf)) (\<lambda>(username, m).
                 bindR (slice_from buf m) (\<lambda>buf. Ok (username, buf)))
               else Ok ([], buf)) (\<lambda>(username, buf).
        bindR (if connFlags AND 0x40 \<noteq> 0 then
                 bindR (mapErr (\<lambda>e. Errorf [ErrInvalidPacket, e]) (readBinaryData buf)) (\<lambda>(password, _). Ok (Some password))
               else Ok None) (\<lambda>password.
          Ok \<lparr>c_ProtocolName = protocolName, c_ProtocolVersion = version, c_CleanStart = (connFlags AND 0x02 \<noteq> 0),
              c_KeepAlive = keepAlive, c_Properties = props, c_ClientID = clientID, c_Username = username,
              c_Password = password, c_Will = will\<rparr>))))))))))))))))"

subsection \<open>CONNACK\<close>

record Connack =
  ca_SessionPresent :: bool
  ca_ReasonCode :: ReasonCode
  ca_Properties :: Properties

record ConnackOpts =
  cko_SessionPresent :: bool
  cko_ReasonCode :: ReasonCode
  cko_SessionExpiryInterval :: "u32 option"
  cko_ReceiveMaximum :: "u16 option"
  cko_MaximumQoS :: "byte option"
  cko_RetainAvailable :: "byte option"
  cko_MaximumPacketSize :: "u32 option"
  cko_AssignedClientIdentifier :: gostring
  cko_TopicAliasMaximum :: u16
  cko_ReasonString :: gostring
  cko_UserProperties :: "UserProperty list"
  cko_WildcardSubscriptionAvailable :: "byte option"
  cko_SubscriptionIdentifierAvailable :: "byte option"
  cko_SharedSubscriptionAvailable :: "byte option"
  cko_ServerKeepAlive :: "u16 option"
  cko_ResponseInformation :: gostring
  cko_ServerReference :: gostring
  cko_AuthenticationMethod :: gostring
  cko_AuthenticationData :: "byte list option"

fun checkBools :: "byte option list \<Rightarrow> unit gores" where
  "checkBools [] = Ok ()"
| "checkBools (v # vs) = bindR (checkBool v) (\<lambda>_. checkBools vs)"

fun checkStrings :: "gostring list \<Rightarrow> unit gores" where
  "checkStrings [] = Ok ()"
| "checkStrings (s # ss) = bindR (checkString s) (\<lambda>_. checkStrings ss)"

definition validateConnackOpts :: "ConnackOpts \<Rightarrow> unit gores" where
  "validateConnackOpts opts =
     bindR (checkReasonCode CONNACK (cko_ReasonCode opts)) (\<lambda>_.
     bindR (checkBools [cko_MaximumQoS opts, cko_RetainAvailable opts, cko_WildcardSubscriptionAvailable opts,
              cko_SubscriptionIdentifierAvailable opts, cko_SharedSubscriptionAvailable opts]) (\<lambda>_.
     if cko_ReceiveMaximum opts = Some 0 then Err (Errorf [ErrInvalidField])
     else if cko_MaximumPacketSize opts = Some 0 then Err (Errorf [ErrInvalidField])
     else bindR (checkStrings [cko_AssignedClientIdentifier opts, cko_ReasonString opts, cko_ResponseInformation opts,
              cko_ServerReference opts, cko_AuthenticationMethod opts]) (\<lambda>_.
     bindR (checkBinary (nil_bytes (cko_AuthenticationData opts))) (\<lambda>_.
     checkUserProps (cko_UserProperties opts)))))"

definition connackPropsLen :: "ConnackOpts \<Rightarrow> nat" where
  "connackPropsLen opts =
     (if cko_SessionExpiryInterval opts \<noteq> None then 5 else 0)
     + (if cko_ReceiveMaximum opts \<noteq> None then 3 else 0)
     + (if cko_MaximumQoS opts \<noteq> None then 2 else 0)
     + (if cko_RetainAvailable opts \<noteq> None then 2 else 0)
     + (if cko_MaximumPacketSize opts \<noteq> None then 5 else 0)
     + (if cko_AssignedClientIdentifier opts \<noteq> [] then 1 + 2 + length (cko_AssignedClientIdentifier opts) else 0)
     + (if cko_TopicAliasMaximum opts \<noteq> 0 then 3 else 0)
     + (if cko_ReasonString opts \<noteq> [] then 1 + 2 + length (cko_ReasonString opts) else 0)
     + (if cko_WildcardSubscriptionAvailable opts \<noteq> None then 2 else 0)
     + (if cko_SubscriptionIdentifierAvailable opts \<noteq> None then 2 else 0)
     + (if cko_SharedSubscriptionAvailable opts \<noteq> None then 2 else 0)
     + (if cko_ServerKeepAlive opts \<noteq> None then 3 else 0)
     + (if cko_ResponseInformation opts \<noteq> [] then 1 + 2 + length (cko_ResponseInformation opts) else 0)
     + (if cko_ServerReference opts \<noteq> [] then 1 + 2 + length (cko_ServerReference opts) else 0)
     + (if cko_AuthenticationMethod opts \<noteq> [] then 1 + 2 + length (cko_AuthenticationMethod opts) else 0)
     + (if cko_AuthenticationData opts \<noteq> None then 1 + 2 + length (nil_bytes (cko_AuthenticationData opts)) else 0)
     + userPropertiesLen (cko_UserProperties opts)"

definition WriteConnack :: "bufpool \<Rightarrow> ConnackOpts \<Rightarrow> byte list list gores" where
  "WriteConnack pool opts =
     bindR (validateConnackOpts opts) (\<lambda>_.
       let propsLen = connackPropsLen opts;
           bodyLen = 1 + 1 + VarintSize (of_nat propsLen) + propsLen
       in bindR (fixedHdr (push_bit 4 CONNACK) bodyLen) (\<lambda>hdr.
          bindR (acquireBuf pool bodyLen) (\<lambda>buf.
          bindR (bindR (bindR (set_index buf 0 (if cko_SessionPresent opts then 0x01 else 0x00)) (\<lambda>buf. Ok (buf, 0 + 1))) (\<lambda>(buf, off).
            bindR (bindR (set_index buf off (cko_ReasonCode opts)) (\<lambda>buf. Ok (buf, off + 1))) (\<lambda>(buf, off).
            bindR (writePropertiesPrefix buf off propsLen) (\<lambda>(buf, off).
            bindR (writeProperty4 buf off PropSessionExpiryInterval (cko_SessionExpiryInterval opts)) (\<lambda>(buf, off).
            bindR (writeProperty2P buf off PropReceiveMaximum (cko_ReceiveMaximum opts)) (\<lambda>(buf, off).
            bindR (writeProperty1 buf off PropMaximumQoS (cko_MaximumQoS opts)) (\<lambda>(buf, off).
            bindR (writeProperty1 buf off PropRetainAvailable (cko_RetainAvailable opts)) (\<lambda>(buf, off).
            bindR (writeProperty4 buf off PropMaximumPacketSize (cko_MaximumPacketSize opts)) (\<lambda>(buf, off).
            bindR (writePropertyString buf off PropAssignedClientID (cko_AssignedClientIdentifier opts)) (\<lambda>(buf, off).
            bindR (writeProperty2 buf off PropTopicAliasMaximum (cko_TopicAliasMaximum opts)) (\<lambda>(buf, off).
            bindR (writePropertyString buf off PropReasonString (cko_ReasonString opts)) (\<lambda>(buf, off).
            bindR (writePropertyUserProps buf off (cko_UserProperties opts)) (\<lambda>(buf, off).
            bindR (writeProperty1 buf off PropWildcardSubAvailable (cko_WildcardSubscriptionAvailable opts)) (\<lambda>(buf, off).
            bindR (writeProperty1 buf off PropSubscriptionIDAvailable (cko_SubscriptionIdentifierAvailable opts)) (\<lambda>(buf, off).
            bindR (writeProperty1 buf off PropSharedSubAvailable (cko_SharedSubscriptionAvailable opts)) (\<lambda>(buf, off).
            bindR (writeProperty2P buf off PropServerKeepAlive (cko_ServerKeepAlive opts)) (\<lambda>(buf, off).
            bindR (writePropertyString buf off PropResponseInformation (cko_ResponseInformation opts)) (\<lambda>(buf, off).
            bindR (writePropertyString buf off PropServerReference (cko_ServerReference opts)) (\<lambda>(buf, off).
            bindR (writePropertyString buf off PropAuthMethod (cko_AuthenticationMethod opts)) (\<lambda>(buf, off).
            writePropertyBinary buf off PropAuthData (cko_AuthenticationData opts)))))))))))))))))))))
          (\<lambda>(buf, _). Ok [hdr, buf]))))"

definition decodeConnack :: "byte list \<Rightarrow> byte \<Rightarrow> Connack gores" where
  "decodeConnack frame flags =
     (if flags \<noteq> 0x00 then Err (Errorf [ErrInvalidPacket])
      else let buf = frame in
        if length buf < 2 then Err (Errorf [ErrInvalidPacket])
        else bindR (index buf 0) (\<lambda>ackFlags.
          if ackFlags AND 0xFE \<noteq> 0 then Err (Errorf [ErrInvalidPacket])
          else let sessionPresent = (ackFlags AND 0x01 \<noteq> 0) in
          bindR (index buf 1) (\<lambda>reason. bindR (slice_from buf 2) (\<lambda>buf.
          bindR (readLastProperties buf) (\<lambda>props.
            Ok \<lparr>ca_SessionPresent = sessionPresent, ca_ReasonCode = reason, ca_Properties = props\<rparr>)))))"

subsection \<open>Specification\<close>

definition connect_props :: "ConnectOpts \<Rightarrow> property list" where
  "connect_props opts =
     p4 PropSessionExpiryInterval (co_SessionExpiryInterval opts) @ p2P PropReceiveMaximum (co_ReceiveMaximum opts) @
     p4 PropMaximumPacketSize (co_MaximumPacketSize opts) @ p2 PropTopicAliasMaximum (co_TopicAliasMaximum opts) @
     p1 PropRequestResponseInfo (co_RequestResponseInformation opts) @
     p1 PropRequestProblemInfo (co_RequestProblemInformation opts) @
     pS PropAuthMethod (co_AuthenticationMethod opts) @ pB PropAuthData (co_AuthenticationData opts) @
     pU (co_UserProperties opts)"

definition will_props :: "WillOpts \<Rightarrow> property list" where
  "will_props w =
     p4 PropWillDelayInterval (wo_WillDelayInterval w) @ p1 PropPayloadFormat (wo_PayloadFormatIndicator w) @
     p4 PropMessageExpiryInterval (wo_MessageExpiryInterval w) @ pS PropContentType (wo_ContentType w) @
     pS PropResponseTopic (wo_ResponseTopic w) @ pB PropCorrelationData (wo_CorrelationData w) @
     pU (wo_UserProperties w)"

definition will_bytes :: "WillOpts option \<Rightarrow> byte list" where
  "will_bytes wo =
     (case wo of None \<Rightarrow> []
      | Some w \<Rightarrow> prop_section (enc_props (will_props w)) @ str16 (wo_Topic w) @ str16 (wo_Payload w))"

definition connect_body :: "ConnectOpts \<Rightarrow> byte list" where
  "connect_body opts =
     str16 ProtocolName @ [ProtocolVersion] @ [encodeConnectFlags opts] @ be16 (co_KeepAlive opts) @
     prop_section (enc_props (connect_props opts)) @ str16 (co_ClientID opts) @ will_bytes (co_Will opts) @
     (if co_Username opts \<noteq> [] then str16 (co_Username opts) else []) @
     (case co_Password opts of None \<Rightarrow> [] | Some pw \<Rightarrow> str16 pw)"

definition connack_props :: "ConnackOpts \<Rightarrow> property list" where
  "connack_props opts =
     p4 PropSessionExpiryInterval (cko_SessionExpiryInterval opts) @ p2P PropReceiveMaximum (cko_ReceiveMaximum opts) @
     p1 PropMaximumQoS (cko_MaximumQoS opts) @ p1 PropRetainAvailable (cko_RetainAvailable opts) @
     p4 PropMaximumPacketSize (cko_MaximumPacketSize opts) @
     pS PropAssignedClientID (cko_AssignedClientIdentifier opts) @
     p2 PropTopicAliasMaximum (cko_TopicAliasMaximum opts) @ pS PropReasonString (cko_ReasonString opts) @
     pU (cko_UserProperties opts) @
     p1 PropWildcardSubAvailable (cko_WildcardSubscriptionAvailable opts) @
     p1 PropSubscriptionIDAvailable (cko_SubscriptionIdentifierAvailable opts) @
     p1 PropSharedSubAvailable (cko_SharedSubscriptionAvailable opts) @
     p2P PropServerKeepAlive (cko_ServerKeepAlive opts) @
     pS PropResponseInformation (cko_ResponseInformation opts) @ pS PropServerReference (cko_ServerReference opts) @
     pS PropAuthMethod (cko_AuthenticationMethod opts) @ pB PropAuthData (cko_AuthenticationData opts)"

definition connack_body :: "ConnackOpts \<Rightarrow> byte list" where
  "connack_body opts =
     [if cko_SessionPresent opts then 0x01 else 0x00] @ [cko_ReasonCode opts] @ prop_section (enc_props (connack_props opts))"

subsection \<open>Encoding\<close>

lemma length_enc_p:
  "length (enc_props (p1 i v)) = (if v \<noteq> None then 2 else 0)"
  "length (enc_props (p2 i w)) = (if w \<noteq> 0 then 3 else 0)"
  "length (enc_props (p2P i h)) = (if h \<noteq> None then 3 else 0)"
  "length (enc_props (p4 i d)) = (if d \<noteq> None then 5 else 0)"
  "length (enc_props (pS i s)) = (if s \<noteq> [] then 1 + 2 + length s else 0)"
  "length (enc_props (pB i b)) = (if b \<noteq> None then 1 + 2 + length (nil_bytes b) else 0)"
  by (auto simp: prop_spec_defs split: option.split)

lemma connectPropsLen_eq: "connectPropsLen opts = length (enc_props (connect_props opts))"
  unfolding connectPropsLen_def connect_props_def enc_props_simps length_append length_enc_p userPropertiesLen_eq
  by (simp only: add.assoc)

lemma willPropsLength_eq: "willPropsLength w = length (enc_props (will_props w))"
  unfolding willPropsLength_def will_props_def enc_props_simps length_append length_enc_p userPropertiesLen_eq
  by (simp only: add.assoc)

lemma connackPropsLen_eq: "connackPropsLen opts = length (enc_props (connack_props opts))"
  unfolding connackPropsLen_def connack_props_def enc_props_simps length_append length_enc_p userPropertiesLen_eq
  by (simp only: add.assoc add.commute add.left_commute)

lemma writeConnectProps_stores: "stores (\<lambda>buf off. writeConnectProps buf off opts) (enc_props (connect_props opts))"
  unfolding writeConnectProps_def connect_props_def enc_props_simps by (intro stores_bind writes)

lemma writeWillProps_stores: "stores (\<lambda>buf off. writeWillProps buf off w) (enc_props (will_props w))"
  unfolding writeWillProps_def will_props_def enc_props_simps by (intro stores_bind writes)

lemma will_stores:
  assumes "length (will_bytes wo) < 268435456"
  shows "stores (\<lambda>buf off. case wo of
       None \<Rightarrow> Ok (buf, off)
     | Some w \<Rightarrow>
         bindR (writePropertiesPrefix buf off (case wo of None \<Rightarrow> 0 | Some w \<Rightarrow> willPropsLength w)) (\<lambda>(buf, off).
         bindR (writeWillProps buf off w) (\<lambda>(buf, off).
         bindR (writeUTF8String buf off (wo_Topic w)) (\<lambda>(buf, off).
         writeBinaryData buf off (wo_Payload w))))) (will_bytes wo)"
proof (cases wo)
  case None
  then show ?thesis by (simp add: will_bytes_def stores_id)
next
  case (Some w)
  then have "length (enc_props (will_props w)) < 268435456"
    using assms by (simp add: will_bytes_def prop_section_def)
  from prop_section_stores [OF this writeWillProps_stores stores_bind [OF writeUTF8String_stores [of "wo_Topic w"]
      writeBinaryData_stores [of "wo_Payload w"]]] Some
  show ?thesis by (simp add: will_bytes_def willPropsLength_eq)
qed

lemma WriteConnect_eq:
  assumes "pool_ok pool" and "length (connect_body opts) < 268435456"
  shows "WriteConnect pool opts =
    bindR (validateConnectOpts opts) (\<lambda>_. Ok [push_bit 4 CONNECT # vbi (length (connect_body opts)), connect_body opts])"
proof -
  let ?ps = "enc_props (connect_props opts)"
  have small: "length ?ps < 268435456" "length (will_bytes (co_Will opts)) < 268435456"
    using assms(2) by (simp_all add: connect_body_def prop_section_def)
  have will: "(case co_Will opts of None \<Rightarrow> 0
      | Some w \<Rightarrow> VarintSize (of_nat (case co_Will opts of None \<Rightarrow> 0 | Some w \<Rightarrow> willPropsLength w))
          + (case co_Will opts of None \<Rightarrow> 0 | Some w \<Rightarrow> willPropsLength w)
          + (2 + length (wo_Topic w)) + (2 + length (wo_Payload w))) = length (will_bytes (co_Will opts))"
    using small(2)
    by (cases "co_Will opts") (simp_all add: will_bytes_def willPropsLength_eq prop_section_def VarintSize_of_nat)
  have body: "2 + length ProtocolName + 1 + 1 + 2 + VarintSize (of_nat (length ?ps)) + length ?ps
      + (2 + length (co_ClientID opts) + length (will_bytes (co_Will opts))
         + (if co_Username opts \<noteq> [] then 2 + length (co_Username opts) else 0)
         + (if co_Password opts \<noteq> None then 2 + length (nil_bytes (co_Password opts)) else 0)) = length (connect_body opts)"
    by (auto simp: connect_body_def length_prop_section [OF small(1)] split: option.split)
  have user: "stores (\<lambda>buf off. if co_Username opts \<noteq> [] then writeUTF8String buf off (co_Username opts) else Ok (buf, off))
      (if co_Username opts \<noteq> [] then str16 (co_Username opts) else [])"
    by (simp add: writeUTF8String_stores stores_id)
  have pw: "stores (\<lambda>buf off. case co_Password opts of None \<Rightarrow> Ok (buf, off) | Some pw \<Rightarrow> writeBinaryData buf off pw)
      (case co_Password opts of None \<Rightarrow> [] | Some pw \<Rightarrow> str16 pw)"
    by (cases "co_Password opts") (simp_all add: writeBinaryData_stores stores_id)
  have st: "stores (\<lambda>buf off. bindR (writeUTF8String buf off ProtocolName) (\<lambda>(buf, off).
      bindR (bindR (set_index buf off ProtocolVersion) (\<lambda>buf. Ok (buf, off + 1))) (\<lambda>(buf, off).
      bindR (bindR (set_index buf off (encodeConnectFlags opts)) (\<lambda>buf. Ok (buf, off + 1))) (\<lambda>(buf, off).
      bindR (bindR (PutUint16 buf off (co_KeepAlive opts)) (\<lambda>buf. Ok (buf, off + 2))) (\<lambda>(buf, off).
      bindR (writePropertiesPrefix buf off (length ?ps)) (\<lambda>(buf, off).
      bindR (writeConnectProps buf off opts) (\<lambda>(buf, off).
      bindR (writeUTF8String buf off (co_ClientID opts)) (\<lambda>(buf, off).
      bindR (case co_Will opts of
               None \<Rightarrow> Ok (buf, off)
             | Some w \<Rightarrow>
                 bindR (writePropertiesPrefix buf off (case co_Will opts of None \<Rightarrow> 0 | Some w \<Rightarrow> willPropsLength w)) (\<lambda>(buf, off).
                 bindR (writeWillProps buf off w) (\<lambda>(buf, off).
                 bindR (writeUTF8String buf off (wo_Topic w)) (\<lambda>(buf, off).
                 writeBinaryData buf off (wo_Payload w))))) (\<lambda>(buf, off).
      bindR (if co_Username opts \<noteq> [] then writeUTF8String buf off (co_Username opts) else Ok (buf, off)) (\<lambda>(buf, off).
      case co_Password opts of None \<Rightarrow> Ok (buf, off) | Some pw \<Rightarrow> writeBinaryData buf off pw))))))))))
      (connect_body opts)"
    unfolding connect_body_def
    by (intro stores_bind [OF writeUTF8String_stores] stores_bind [OF set_index_stores] stores_bind [OF PutUint16_stores]
        prop_section_stores [OF small(1) writeConnectProps_stores] stores_bind [OF will_stores [OF small(2)]]
        stores_bind [OF user pw])
  show ?thesis
    unfolding WriteConnect_def Let_def connectPropsLen_eq will body write_packet [OF assms(1,2) st]
    by (rule refl)
qed

lemma WriteConnack_eq:
  assumes "pool_ok pool" and "length (connack_body opts) < 268435456"
  shows "WriteConnack pool opts =
    bindR (validateConnackOpts opts) (\<lambda>_. Ok [push_bit 4 CONNACK # vbi (length (connack_body opts)), connack_body opts])"
proof -
  let ?ps = "enc_props (connack_props opts)"
  have small: "length ?ps < 268435456"
    using assms(2) by (simp add: connack_body_def prop_section_def)
  have body: "1 + 1 + VarintSize (of_nat (length ?ps)) + length ?ps = length (connack_body opts)"
    by (simp add: connack_body_def length_prop_section [OF small])
  have st: "stores (\<lambda>buf off. bindR (bindR (set_index buf off (if cko_SessionPresent opts then 0x01 else 0x00)) (\<lambda>buf. Ok (buf, off + 1))) (\<lambda>(buf, off).
            bindR (bindR (set_index buf off (cko_ReasonCode opts)) (\<lambda>buf. Ok (buf, off + 1))) (\<lambda>(buf, off).
            bindR (writePropertiesPrefix buf off (length ?ps)) (\<lambda>(buf, off).
            bindR (writeProperty4 buf off PropSessionExpiryInterval (cko_SessionExpiryInterval opts)) (\<lambda>(buf, off).
            bindR (writeProperty2P buf off PropReceiveMaximum (cko_ReceiveMaximum opts)) (\<lambda>(buf, off).
            bindR (writeProperty1 buf off PropMaximumQoS (cko_MaximumQoS opts)) (\<lambda>(buf, off).
            bindR (writeProperty1 buf off PropRetainAvailable (cko_RetainAvailable opts)) (\<lambda>(buf, off).
            bindR (writeProperty4 buf off PropMaximumPacketSize (cko_MaximumPacketSize opts)) (\<lambda>(buf, off).
            bindR (writePropertyString buf off PropAssignedClientID (cko_AssignedClientIdentifier opts)) (\<lambda>(buf, off).
            bindR (writeProperty2 buf off PropTopicAliasMaximum (cko_TopicAliasMaximum opts)) (\<lambda>(buf, off).
            bindR (writePropertyString buf off PropReasonString (cko_ReasonString opts)) (\<lambda>(buf, off).
            bindR (writePropertyUserProps buf off (cko_UserProperties opts)) (\<lambda>(buf, off).
            bindR (writeProperty1 buf off PropWildcardSubAvailable (cko_WildcardSubscriptionAvailable opts)) (\<lambda>(buf, off).
            bindR (writeProperty1 buf off PropSubscriptionIDAvailable (cko_SubscriptionIdentifierAvailable opts)) (\<lambda>(buf, off).
            bindR (writeProperty1 buf off PropSharedSubAvailable (cko_SharedSubscriptionAvailable opts)) (\<lambda>(buf, off).
            bindR (writeProperty2P buf off PropServerKeepAlive (cko_ServerKeepAlive opts)) (\<lambda>(buf, off).
            bindR (writePropertyString buf off PropResponseInformation (cko_ResponseInformation opts)) (\<lambda>(buf, off).
            bindR (writePropertyString buf off PropServerReference (cko_ServerReference opts)) (\<lambda>(buf, off).
            bindR (writePropertyString buf off PropAuthMethod (cko_AuthenticationMethod opts)) (\<lambda>(buf, off).
            writePropertyBinary buf off PropAuthData (cko_AuthenticationData opts)))))))))))))))))))))
      (connack_body opts)"
    unfolding connack_body_def prop_section_def
    by (intro stores_bind [OF set_index_stores] stores_bind [OF writePropertiesPrefix_stores [OF small]])
      (unfold connack_props_def enc_props_simps, intro stores_bind writes)
  show ?thesis
    unfolding WriteConnack_def Let_def connackPropsLen_eq body write_packet [OF assms(1,2) st]
    by (rule refl)
qed

subsection \<open>Validation\<close>

definition valid_will :: "WillOpts \<Rightarrow> bool" where
  "valid_will w \<longleftrightarrow>
     wo_Topic w \<noteq> [] \<and> length (wo_Topic w) < 65536 \<and> utf8_ok (wo_Topic w) \<and> \<not> ContainsWildcard (wo_Topic w) \<and>
     wo_QoS w \<le> 2 \<and>
     length (wo_ResponseTopic w) < 65536 \<and> utf8_ok (wo_ResponseTopic w) \<and> \<not> ContainsWildcard (wo_ResponseTopic w) \<and>
     (\<forall>v. wo_PayloadFormatIndicator w = Some v \<longrightarrow> v \<le> 1) \<and>
     length (wo_ContentType w) < 65536 \<and> utf8_ok (wo_ContentType w) \<and> length (wo_Payload w) < 65536 \<and>
     length (nil_bytes (wo_CorrelationData w)) < 65536 \<and> list_all wf_user (wo_UserProperties w) \<and>
     list_all (\<lambda>up. utf8_ok (Key up) \<and> utf8_ok (Value up)) (wo_UserProperties w)"

lemma validateWillOpts_Ok: "validateWillOpts w = Ok () \<longleftrightarrow> valid_will w"
  by (auto simp: validateWillOpts_def valid_will_def bindR_eq_Ok check_Ok not_less split: if_splits)

definition valid_connect :: "ConnectOpts \<Rightarrow> bool" where
  "valid_connect opts \<longleftrightarrow>
     length (co_ClientID opts) < 65536 \<and> utf8_ok (co_ClientID opts) \<and>
     length (co_Username opts) < 65536 \<and> utf8_ok (co_Username opts) \<and>
     length (nil_bytes (co_Password opts)) < 65536 \<and>
     (\<forall>w. co_Will opts = Some w \<longrightarrow> valid_will w) \<and>
     co_ReceiveMaximum opts \<noteq> Some 0 \<and> co_MaximumPacketSize opts \<noteq> Some 0 \<and>
     (\<forall>v. co_RequestResponseInformation opts = Some v \<longrightarrow> v \<le> 1) \<and>
     (\<forall>v. co_RequestProblemInformation opts = Some v \<longrightarrow> v \<le> 1) \<and>
     length (co_AuthenticationMethod opts) < 65536 \<and> utf8_ok (co_AuthenticationMethod opts) \<and>
     (co_AuthenticationData opts \<noteq> None \<longrightarrow> co_AuthenticationMethod opts \<noteq> []) \<and>
     length (nil_bytes (co_AuthenticationData opts)) < 65536 \<and> list_all wf_user (co_UserProperties opts) \<and>
     list_all (\<lambda>up. utf8_ok (Key up) \<and> utf8_ok (Value up)) (co_UserProperties opts)"

lemma validateConnectOpts_Ok: "validateConnectOpts opts = Ok () \<longleftrightarrow> valid_connect opts"
  by (auto simp: validateConnectOpts_def valid_connect_def bindR_eq_Ok check_Ok validateWillOpts_Ok split: option.splits if_splits)

definition valid_connack :: "ConnackOpts \<Rightarrow> bool" where
  "valid_connack opts \<longleftrightarrow>
     cko_ReasonCode opts \<in> set (reasonCodes CONNACK) \<and>
     list_all (\<lambda>b. \<forall>v. b = Some v \<longrightarrow> v \<le> 1)
       [cko_MaximumQoS opts, cko_RetainAvailable opts, cko_WildcardSubscriptionAvailable opts,
        cko_SubscriptionIdentifierAvailable opts, cko_SharedSubscriptionAvailable opts] \<and>
     cko_ReceiveMaximum opts \<noteq> Some 0 \<and> cko_MaximumPacketSize opts \<noteq> Some 0 \<and>
     list_all (\<lambda>s. length s < 65536 \<and> utf8_ok s)
       [cko_AssignedClientIdentifier opts, cko_ReasonString opts, cko_ResponseInformation opts,
        cko_ServerReference opts, cko_AuthenticationMethod opts] \<and>
     length (nil_bytes (cko_AuthenticationData opts)) < 65536 \<and> list_all wf_user (cko_UserProperties opts) \<and>
     list_all (\<lambda>up. utf8_ok (Key up) \<and> utf8_ok (Value up)) (cko_UserProperties opts)"

lemma validateConnackOpts_Ok: "validateConnackOpts opts = Ok () \<longleftrightarrow> valid_connack opts"
proof -
  have "checkBools bs = Ok () \<longleftrightarrow> list_all (\<lambda>b. \<forall>v. b = Some v \<longrightarrow> v \<le> 1) bs" for bs
    by (induction bs) (simp_all add: bindR_eq_Ok check_Ok)
  moreover have "checkStrings ss = Ok () \<longleftrightarrow> list_all (\<lambda>s. length s < 65536 \<and> utf8_ok s) ss" for ss
    by (induction ss) (simp_all add: bindR_eq_Ok check_Ok)
  ultimately show ?thesis
    by (auto simp: validateConnackOpts_def valid_connack_def bindR_eq_Ok check_Ok
        simp del: checkBools.simps checkStrings.simps list.pred_inject)
qed

subsection \<open>Decoding\<close>

lemma encodeConnectFlags_decode:
  assumes "\<And>w. co_Will opts = Some w \<Longrightarrow> wo_QoS w \<le> 2"
  shows "encodeConnectFlags opts AND 0x01 = 0"
    "(encodeConnectFlags opts AND 0x02 \<noteq> 0) = co_CleanStart opts"
    "(encodeConnectFlags opts AND 0x04 \<noteq> 0) = (co_Will opts \<noteq> None)"
    "drop_bit 3 (encodeConnectFlags opts) AND 0x03 = (case co_Will opts of None \<Rightarrow> 0 | Some w \<Rightarrow> wo_QoS w)"
    "(encodeConnectFlags opts AND 0x20 \<noteq> 0) = (case co_Will opts of None \<Rightarrow> False | Some w \<Rightarrow> wo_Retain w)"
    "(encodeConnectFlags opts AND 0x40 \<noteq> 0) = (co_Password opts \<noteq> None)"
    "(encodeConnectFlags opts AND 0x80 \<noteq> 0) = (co_Username opts \<noteq> [])"
proof -
  consider (none) "co_Will opts = None" | (qos0) w where "co_Will opts = Some w" "wo_QoS w = 0"
    | (qos1) w where "co_Will opts = Some w" "wo_QoS w = 1" | (qos2) w where "co_Will opts = Some w" "wo_QoS w = 2"
    using assms qos_cases by (cases "co_Will opts") auto
  then have "encodeConnectFlags opts AND 0x01 = 0 \<and>
    (encodeConnectFlags opts AND 0x02 \<noteq> 0) = co_CleanStart opts \<and>
    (encodeConnectFlags opts AND 0x04 \<noteq> 0) = (co_Will opts \<noteq> None) \<and>
    drop_bit 3 (encodeConnectFlags opts) AND 0x03 = (case co_Will opts of None \<Rightarrow> 0 | Some w \<Rightarrow> wo_QoS w) \<and>
    (encodeConnectFlags opts AND 0x20 \<noteq> 0) = (case co_Will opts of None \<Rightarrow> False | Some w \<Rightarrow> wo_Retain w) \<and>
    (encodeConnectFlags opts AND 0x40 \<noteq> 0) = (co_Password opts \<noteq> None) \<and>
    (encodeConnectFlags opts AND 0x80 \<noteq> 0) = (co_Username opts \<noteq> [])"
  proof cases
    case none
    then show ?thesis
      by (cases "co_CleanStart opts"; cases "co_Password opts"; cases "co_Username opts = []")
        (simp_all add: encodeConnectFlags_def Let_def)
  next
    case (qos0 w)
    then show ?thesis
      by (cases "co_CleanStart opts"; cases "wo_Retain w"; cases "co_Password opts"; cases "co_Username opts = []")
        (simp_all add: encodeConnectFlags_def Let_def)
  next
    case (qos1 w)
    then show ?thesis
      by (cases "co_CleanStart opts"; cases "wo_Retain w"; cases "co_Password opts"; cases "co_Username opts = []")
        (simp_all add: encodeConnectFlags_def Let_def)
  next
    case (qos2 w)
    then show ?thesis
      by (cases "co_CleanStart opts"; cases "wo_Retain w"; cases "co_Password opts"; cases "co_Username opts = []")
        (simp_all add: encodeConnectFlags_def Let_def)
  qed
  then show "encodeConnectFlags opts AND 0x01 = 0"
    "(encodeConnectFlags opts AND 0x02 \<noteq> 0) = co_CleanStart opts"
    "(encodeConnectFlags opts AND 0x04 \<noteq> 0) = (co_Will opts \<noteq> None)"
    "drop_bit 3 (encodeConnectFlags opts) AND 0x03 = (case co_Will opts of None \<Rightarrow> 0 | Some w \<Rightarrow> wo_QoS w)"
    "(encodeConnectFlags opts AND 0x20 \<noteq> 0) = (case co_Will opts of None \<Rightarrow> False | Some w \<Rightarrow> wo_Retain w)"
    "(encodeConnectFlags opts AND 0x40 \<noteq> 0) = (co_Password opts \<noteq> None)"
    "(encodeConnectFlags opts AND 0x80 \<noteq> 0) = (co_Username opts \<noteq> [])"
    by blast+
qed

definition will_of :: "WillOpts \<Rightarrow> Will" where
  "will_of w =
     \<lparr>w_Topic = wo_Topic w, w_Payload = wo_Payload w, w_QoS = wo_QoS w, w_Retain = wo_Retain w,
      w_Properties = PropertiesFromBytes (enc_props (will_props w))\<rparr>"

definition connect_of :: "ConnectOpts \<Rightarrow> Connect" where
  "connect_of opts =
     \<lparr>c_ProtocolName = ProtocolName, c_ProtocolVersion = ProtocolVersion, c_CleanStart = co_CleanStart opts,
      c_KeepAlive = co_KeepAlive opts, c_Properties = PropertiesFromBytes (enc_props (connect_props opts)),
      c_ClientID = co_ClientID opts, c_Username = co_Username opts, c_Password = co_Password opts,
      c_Will = map_option will_of (co_Will opts)\<rparr>"

lemma decodeWill_enc:
  assumes "\<And>w. co_Will opts = Some w \<Longrightarrow> valid_will w" and "length (will_bytes (co_Will opts) @ r) < 268435456"
  shows "decodeWill (encodeConnectFlags opts) (will_bytes (co_Will opts) @ r) = Ok (map_option will_of (co_Will opts), r)"
proof -
  have q: "\<And>w. co_Will opts = Some w \<Longrightarrow> wo_QoS w \<le> 2"
    using assms(1) by (auto simp: valid_will_def)
  note flags = encodeConnectFlags_decode [of opts, OF q]
  show ?thesis
  proof (cases "co_Will opts")
    case None
    then show ?thesis
      using flags by (simp add: decodeWill_def will_bytes_def Let_def)
  next
    case (Some w)
    then have w: "length (wo_Topic w) < 65536" "length (wo_Payload w) < 65536"
      and len: "length (enc_props (will_props w)) < 268435456" "length (str16 (wo_Topic w) @ str16 (wo_Payload w) @ r) < 268435456"
      using assms by (auto simp: valid_will_def will_bytes_def prop_section_def)
    show ?thesis
      using w flags read_section [OF len]
      by (simp add: decodeWill_def will_bytes_def Let_def Some will_of_def)
  qed
qed

lemma decodeConnect_enc:
  assumes "valid_connect opts" and "length (connect_body opts) < 268435456"
  shows "decodeConnect (connect_body opts) 0 = Ok (connect_of opts)"
proof -
  have w: "\<And>w. co_Will opts = Some w \<Longrightarrow> valid_will w" and q: "\<And>w. co_Will opts = Some w \<Longrightarrow> wo_QoS w \<le> 2"
    and len: "length (co_ClientID opts) < 65536" "length (co_Username opts) < 65536" "length (nil_bytes (co_Password opts)) < 65536"
    using assms(1) by (auto simp: valid_connect_def valid_will_def)
  note flags = encodeConnectFlags_decode [of opts, OF q]
  define u where "u = (if co_Username opts \<noteq> [] then str16 (co_Username opts) else [])"
  define p where "p = (case co_Password opts of None \<Rightarrow> [] | Some pw \<Rightarrow> str16 pw)"
  have body: "connect_body opts = str16 ProtocolName @ [ProtocolVersion] @ [encodeConnectFlags opts] @ be16 (co_KeepAlive opts) @
     prop_section (enc_props (connect_props opts)) @ str16 (co_ClientID opts) @ will_bytes (co_Will opts) @ u @ p"
    by (simp add: connect_body_def u_def p_def)
  have small: "length (enc_props (connect_props opts)) < 268435456"
      "length (str16 (co_ClientID opts) @ will_bytes (co_Will opts) @ u @ p) < 268435456"
      "length (will_bytes (co_Will opts) @ u @ p) < 268435456"
    using assms(2) by (simp_all add: body prop_section_def)
  have name: "length ProtocolName < 65536" by (simp add: ProtocolName_def)
  have user: "(if co_Username opts \<noteq> [] then
      bindR (mapErr (\<lambda>e. Errorf [ErrInvalidPacket, e]) (readUTF8String (u @ p))) (\<lambda>(username, m).
        bindR (slice_from (u @ p) m) (\<lambda>buf. Ok (username, buf)))
      else Ok ([], u @ p)) = Ok (co_Username opts, p)"
    using len(2) by (simp add: u_def)
  have pass: "(if co_Password opts \<noteq> None then
      bindR (mapErr (\<lambda>e. Errorf [ErrInvalidPacket, e]) (readBinaryData p)) (\<lambda>(password, _). Ok (Some password))
      else Ok None) = Ok (co_Password opts)"
    using len(3) readBinaryData_str16 [of _ "[]"] by (cases "co_Password opts") (simp_all add: p_def)
  show ?thesis
    unfolding decodeConnect_def body Let_def
    using len(1) name
    by (simp add: flags read_section [OF small(1,2)] decodeWill_enc [OF w small(3)] user pass connect_of_def
        del: not_None_eq)
qed

lemma decodeConnack_enc:
  assumes "length (connack_body opts) < 268435456"
  shows "decodeConnack (connack_body opts) 0 =
    Ok \<lparr>ca_SessionPresent = cko_SessionPresent opts, ca_ReasonCode = cko_ReasonCode opts,
        ca_Properties = PropertiesFromBytes (enc_props (connack_props opts))\<rparr>"
proof -
  have "length (enc_props (connack_props opts)) < 268435456"
    using assms by (simp add: connack_body_def prop_section_def)
  from readLastProperties_enc [OF this] show ?thesis
    by (simp add: decodeConnack_def connack_body_def prop_section_def Let_def)
qed

lemma decodeWill_not_Panic:
  assumes "length buf < 4294967296"
  shows "decodeWill f buf \<noteq> Panic"
  unfolding decodeWill_def Let_def readBinaryData_eq
  using assms
  by (intro no_panic) (auto simp: slice_from_def dest: readProperties_len readUTF8String_OkD(3) split: if_splits)

lemma connect_decoders_not_Panic:
  assumes "length frame < 4294967296"
  shows "decodeConnect frame flags \<noteq> Panic" "decodeConnack frame flags \<noteq> Panic"
  unfolding decodeConnect_def decodeConnack_def Let_def readBinaryData_eq
  using assms
  by (intro no_panic decodeWill_not_Panic readLastProperties_not_Panic readProperties_not_Panic;
      auto simp: slice_from_def Suc_le_eq dest: readProperties_len readUTF8String_OkD(3) split: if_splits)+

end
