(* ===== verification/Decoder.thy ===== *)
theory Decoder
  imports Connect_Packet
begin

text \<open>
  The packet decoder (\<open>Decoder\<close> of \<open>wire/codec.go\<close> with \<open>validatePacket\<close> of \<open>wire/validate.go\<close>).
  The reader is the list of bytes that are still to come before the stream ends, and a call
  returns what it leaves of it. \<open>SetLenient\<close>'s callback is represented by the list of violations it
  is called with. The loop of \<open>readBody\<close> has no bound in the source; it is a partial function whose
  value \<open>None\<close> means that it does not return, so that returning is a theorem.
\<close>

subsection \<open>Packets\<close>

datatype Packet =
    PConnect Connect | PConnack Connack | PPublish Publish | PPubResp PubResp
  | PSubscribe Subscribe | PSuback Suback | PUnsubscribe Unsubscribe | PUnsuback Suback
  | PPingreq | PPingresp | PDisconnect Disconnect | PAuth Auth

fun Packet_Type :: "Packet \<Rightarrow> PacketType" where
  "Packet_Type (PConnect _) = CONNECT"
| "Packet_Type (PConnack _) = CONNACK"
| "Packet_Type (PPublish _) = PUBLISH"
| "Packet_Type (PPubResp p) = pr_pktType p"
| "Packet_Type (PSubscribe _) = SUBSCRIBE"
| "Packet_Type (PSuback _) = SUBACK"
| "Packet_Type (PUnsubscribe _) = UNSUBSCRIBE"
| "Packet_Type (PUnsuback _) = UNSUBACK"
| "Packet_Type PPingreq = PINGREQ"
| "Packet_Type PPingresp = PINGRESP"
| "Packet_Type (PDisconnect _) = DISCONNECT"
| "Packet_Type (PAuth _) = AUTH"

fun checkReasonList :: "PacketType \<Rightarrow> ReasonCode list \<Rightarrow> (PacketError, unit) res" where
  "checkReasonList t [] = Ok ()"
| "checkReasonList t (rc # rcs) = bindR (checkReason t rc) (\<lambda>_. checkReasonList t rcs)"

fun checkFilters :: "PacketType \<Rightarrow> SubscribeFilter list \<Rightarrow> (PacketError, unit) res" where
  "checkFilters t [] = Ok ()"
| "checkFilters t (f # fs) =
     bindR (mapErr (\<lambda>_. protocolError t) (ValidTopicFilter (sf_Topic f))) (\<lambda>_.
       if sf_NoLocal f \<and> IsSharedFilter (sf_Topic f) then Err (protocolError t) else checkFilters t fs)"

fun checkTopics :: "PacketType \<Rightarrow> gostring list \<Rightarrow> (PacketError, unit) res" where
  "checkTopics t [] = Ok ()"
| "checkTopics t (f # fs) =
     bindR (mapErr (\<lambda>_. protocolError t) (ValidTopicFilter f)) (\<lambda>_. checkTopics t fs)"

fun validatePacket :: "Packet \<Rightarrow> (PacketError, unit) res" where
  "validatePacket (PPublish x) =
     (let t = PUBLISH; (valid, wildcard) = scanTopicName (pb_Topic x) in
      if \<not> valid then Err (malformed t)
      else if wildcard then Err (protocolError t)
      else if pb_QoS x > 0 \<and> pb_PacketID x = 0 then Err (protocolError t)
      else bindR (validateProps t (raw (pb_Properties x)) publishProps) (\<lambda>_.
        if pb_Topic x = [] then
          (case Properties_Uint16 (pb_Properties x) PropTopicAlias of
             None \<Rightarrow> Err (protocolError t)
           | Some _ \<Rightarrow> Ok ())
        else Ok ()))"
| "validatePacket (PConnack x) =
     (let t = CONNACK in bindR (checkReason t (ca_ReasonCode x)) (\<lambda>_.
        validateProps t (raw (ca_Properties x)) (allowedProps t)))"
| "validatePacket (PPubResp x) =
     (let t = pr_pktType x in
      if pr_PacketID x = 0 then Err (protocolError t)
      else bindR (checkReason t (pr_ReasonCode x)) (\<lambda>_. validateProps t (raw (pr_Properties x)) (allowedProps t)))"
| "validatePacket (PSuback x) =
     (let t = SUBACK in
      if sa_PacketID x = 0 then Err (protocolError t)
      else bindR (checkReasonList t (sa_ReasonCodes x)) (\<lambda>_. validateProps t (raw (sa_Properties x)) (allowedProps t)))"
| "validatePacket (PUnsuback x) =
     (let t = UNSUBACK in
      if sa_PacketID x = 0 then Err (protocolError t)
      else bindR (checkReasonList t (sa_ReasonCodes x)) (\<lambda>_. validateProps t (raw (sa_Properties x)) (allowedProps t)))"
| "validatePacket (PDisconnect x) =
     (let t = DISCONNECT in bindR (checkReason t (di_ReasonCode x)) (\<lambda>_.
        validateProps t (raw (di_Properties x)) (allowedProps t)))"
| "validatePacket (PAuth x) =
     (let t = AUTH in bindR (checkReason t (au_ReasonCode x)) (\<lambda>_.
        validateProps t (raw (au_Properties x)) (allowedProps t)))"
| "validatePacket (PConnect x) =
     (let t = CONNECT in
      if \<not> validUTF8 (c_ClientID x) \<or> \<not> validUTF8 (c_Username x) then Err (malformed t)
      else bindR (validateProps t (raw (c_Properties x)) (allowedProps t)) (\<lambda>_.
        case c_Will x of
          None \<Rightarrow> Ok ()
        | Some w \<Rightarrow>
            bindR (mapErr (\<lambda>_. protocolError t) (ValidTopicName (w_Topic w))) (\<lambda>_.
              if w_Topic w = [] then Err (protocolError t)
              else validateProps t (raw (w_Properties w)) willProps)))"
| "validatePacket (PSubscribe x) =
     (let t = SUBSCRIBE in
      if sb_PacketID x = 0 then Err (protocolError t)
      else bindR (checkFilters t (sb_Filters x)) (\<lambda>_. validateProps t (raw (sb_Properties x)) (allowedProps t)))"
| "validatePacket (PUnsubscribe x) =
     (let t = UNSUBSCRIBE in
      if us_PacketID x = 0 then Err (protocolError t)
      else bindR (checkTopics t (us_Topics x)) (\<lambda>_. validateProps t (raw (us_Properties x)) (allowedProps t)))"
| "validatePacket PPingreq = Ok ()"
| "validatePacket PPingresp = Ok ()"

definition mapOk :: "('a \<Rightarrow> 'b) \<Rightarrow> 'a gores \<Rightarrow> 'b gores" where
  "mapOk f m = bindR m (\<lambda>x. Ok (f x))"

definition decodeBody :: "byte list \<Rightarrow> PacketType \<Rightarrow> byte \<Rightarrow> Packet gores" where
  "decodeBody bp pktType flags =
     (if pktType = CONNECT then mapOk PConnect (decodeConnect bp flags)
      else if pktType = CONNACK then mapOk PConnack (decodeConnack bp flags)
      else if pktType = PUBLISH then mapOk PPublish (decodePublish bp flags)
      else if pktType = PUBACK \<or> pktType = PUBREC \<or> pktType = PUBREL \<or> pktType = PUBCOMP
        then mapOk PPubResp (decodePubResp bp pktType flags)
      else if pktType = SUBSCRIBE then mapOk PSubscribe (decodeSubscribe bp flags)
      else if pktType = SUBACK then mapOk PSuback (decodeSuback bp flags)
      else if pktType = UNSUBSCRIBE then mapOk PUnsubscribe (decodeUnsubscribe bp flags)
      else if pktType = UNSUBACK then mapOk PUnsuback (decodeUnsuback bp flags)
      else if pktType = PINGREQ then Ok PPingreq
      else if pktType = PINGRESP then Ok PPingresp
      else if pktType = DISCONNECT then mapOk PDisconnect (decodeDisconnect bp flags)
      else if pktType = AUTH then mapOk PAuth (decodeAuth bp flags)
      else Err (Errorf [ErrUnsupportedPacket]))"

subsection \<open>Reading a body\<close>

definition largeBodyChunk :: nat where
  "largeBodyChunk = 65536"

text \<open>\<open>io.ReadFull(r, buf)\<close> with \<open>len(buf) = n\<close>: the bytes read and the rest of the stream.\<close>

definition ReadFull :: "byte list \<Rightarrow> nat \<Rightarrow> (byte list \<times> byte list) gores" where
  "ReadFull r n =
     (if n \<le> length r then Ok (take n r, drop n r)
      else if r = [] then Err EOF else Err ErrUnexpectedEOF)"

text \<open>The loop's state: the buffer, the bytes it holds, and the stream.\<close>

type_synonym body_state = "byte list \<times> nat \<times> byte list"

definition readBody_step :: "nat \<Rightarrow> body_state \<Rightarrow> ((byte list \<times> byte list) gores) + body_state" where
  "readBody_step n s =
     (case s of (body, got, r) \<Rightarrow>
        case ReadFull r (length body - got) of
          Err e \<Rightarrow> Inl (Err (if errors_is e EOF then ErrUnexpectedEOF else e))
        | Panic \<Rightarrow> Inl Panic
        | Ok (bs, r) \<Rightarrow>
            let body = take got body @ bs; got = got + length bs in
            if got = n then Inl (Ok (body, r))
            else let next = 4 * length body;
                     next = (if n \<le> 8 * got then n else next);
                     grown = replicate (min n next) 0;
                     grown = take got body @ drop got grown
                 in Inr (grown, got, r))"

partial_function (option) readBody_loop :: "nat \<Rightarrow> body_state \<Rightarrow> (byte list \<times> byte list) gores option" where
  "readBody_loop n s =
     (case readBody_step n s of
        Inl out \<Rightarrow> Some out
      | Inr s' \<Rightarrow> readBody_loop n s')"

definition readBody :: "bufpool \<Rightarrow> nat \<Rightarrow> byte list \<Rightarrow> (byte list \<times> byte list) gores option" where
  "readBody pool n r =
     (if n \<le> largeBodyChunk then
        Some (bindR (acquireBuf pool n) (\<lambda>bp. ReadFull r (length bp)))
      else case acquireBuf pool largeBodyChunk of
             Ok first \<Rightarrow> readBody_loop n (first, 0, r)
           | Err e \<Rightarrow> Some (Err e)
           | Panic \<Rightarrow> Some Panic)"

subsection \<open>ReadPacket\<close>

record Decoder =
  maxPacket :: u32
  lenient :: bool

text \<open>The outcome of \<open>ReadPacket\<close>: the packet and the rest of the stream or an error, and the
  violations reported to the lenient callback.\<close>

type_synonym read_outcome = "(Packet \<times> byte list) gores \<times> PacketError list"

definition finishPacket :: "PacketType \<Rightarrow> byte \<Rightarrow> (byte list \<times> byte list) gores \<Rightarrow> (Packet \<times> byte list) gores" where
  "finishPacket pktType flags out =
     bindR out (\<lambda>(bp, r).
     bindR (mapErr (asPacketError pktType) (decodeBody bp pktType flags)) (\<lambda>p.
     bindR (mapErr PacketErr (validatePacket p)) (\<lambda>_. Ok (p, r))))"

definition ReadPacket :: "bufpool \<Rightarrow> Decoder \<Rightarrow> byte list \<Rightarrow> read_outcome option" where
  "ReadPacket pool d r =
     (case r of
        [] \<Rightarrow> Some (Err EOF, [])
      | b0 # r \<Rightarrow>
          let pktType = drop_bit 4 b0; flags = b0 AND 0x0F in
          case ReadVarint r of
            Err err \<Rightarrow>
              (let err = (if errors_is err EOF then ErrUnexpectedEOF else err)
               in Some (Err (asPacketError pktType (Errorf [err])), []))
          | Panic \<Rightarrow> Some (Panic, [])
          | Ok (remaining, n, r) \<Rightarrow>
              if maxPacket d > 0 \<and> 1 + n + unat remaining > unat (maxPacket d)
              then Some (Err (Errorf [ErrPacketTooLarge]), [])
              else case checkHeader pktType flags remaining (n = VarintSize remaining) of
                     (Some perr, tolerable) \<Rightarrow>
                       if \<not> tolerable \<or> \<not> lenient d then Some (Err (PacketErr perr), [])
                       else map_option (\<lambda>out. (finishPacket pktType (if pktType = PINGRESP then 0 else flags) out, [perr]))
                              (readBody pool (unat remaining) r)
                   | (None, _) \<Rightarrow>
                       map_option (\<lambda>out. (finishPacket pktType flags out, [])) (readBody pool (unat remaining) r))"

text \<open>\<open>Ready\<close>: \<open>buffered\<close> is what the reader's window holds.\<close>

definition Ready :: "byte list \<Rightarrow> bool gores" where
  "Ready buffered =
     (let n = length buffered in
      if n < 2 then Ok False
      else let hdr = take (min n (1 + maxVarintBytes)) buffered in
        bindR (slice_from hdr 1) (\<lambda>b.
          case DecodeVarint b of
            Ok (sz, k) \<Rightarrow> Ok (n \<ge> 1 + k + unat sz)
          | Err _ \<Rightarrow> Ok False
          | Panic \<Rightarrow> Panic))"

subsection \<open>Lemmas: reading a body\<close>

definition body_inv :: "nat \<Rightarrow> body_state \<Rightarrow> bool" where
  "body_inv n s = (case s of (body, got, r) \<Rightarrow> got < length body \<and> length body \<le> n)"

text \<open>One iteration on a state that satisfies the invariant.\<close>

lemma readBody_step_cases:
  assumes "body_inv n (body, got, r)"
  obtains (short) "length r < length body - got" "readBody_step n (body, got, r) = Inl (Err ErrUnexpectedEOF)"
  | (full) "length body = n" "n - got \<le> length r"
      "readBody_step n (body, got, r) = Inl (Ok (take got body @ take (n - got) r, drop (n - got) r))"
  | (grow) body' where "length body < n" "length body - got \<le> length r"
      "readBody_step n (body, got, r) = Inr (body', length body, drop (length body - got) r)"
      "take (length body) body' = take got body @ take (length body - got) r"
      "length body < length body'" "length body' \<le> n" "length body' \<le> 8 * length body"
proof (cases "length r < length body - got")
  case True
  then show ?thesis
    using short by (auto simp: readBody_step_def ReadFull_def)
next
  case False
  let ?w = "length body - got"
  have inv: "got < length body" "length body \<le> n" using assms by (simp_all add: body_inv_def)
  have read: "ReadFull r ?w = Ok (take ?w r, drop ?w r)"
    using False by (simp add: ReadFull_def)
  have got: "got + length (take ?w r) = length body" and len: "length (take got body @ take ?w r) = length body"
    using False inv by auto
  show ?thesis
  proof (cases "length body = n")
    case True
    then show ?thesis
      using full False read got by (simp add: readBody_step_def Let_def)
  next
    case not_n: False
    define size' where "size' = min n (if n \<le> 8 * length body then n else 4 * length body)"
    let ?b = "take got body @ take ?w r"
    let ?g = "?b @ drop (length body) (replicate size' 0)"
    have step: "readBody_step n (body, got, r) = Inr (take (length body) (take got body @ bs) @ drop (length body) (replicate size' 0), length body, rest)"
      if "ReadFull r ?w = Ok (bs, rest)" "got + length bs = length body" "length (take got body @ bs) = length body" for bs rest
      unfolding readBody_step_def prod.case that(1) res.case Let_def that(2,3) size'_def using not_n by simp
    have "readBody_step n (body, got, r) = Inr (?g, length body, drop ?w r)"
      using step [OF read got len] unfolding take_all [OF eq_imp_le [OF len]] by simp
    moreover have "length body < size'" "size' \<le> n" "size' \<le> 8 * length body"
      using inv not_n by (auto simp: size'_def min_def)
    ultimately show ?thesis
      using grow [of ?g] not_n False inv len by simp
  qed
qed

lemma readBody_loop_eq:
  "body_inv n (body, got, r) \<Longrightarrow>
    readBody_loop n (body, got, r) =
      Some (if n - got \<le> length r then Ok (take got body @ take (n - got) r, drop (n - got) r) else Err ErrUnexpectedEOF)"
proof (induction "n - length body" arbitrary: body got r rule: less_induct)
  case less
  have inv: "got < length body" "length body \<le> n" using less.prems by (simp_all add: body_inv_def)
  from less.prems show ?case
  proof (cases rule: readBody_step_cases)
    case short
    then show ?thesis using inv by (subst readBody_loop.simps) auto
  next
    case full
    then show ?thesis by (subst readBody_loop.simps) simp
  next
    case (grow body')
    let ?w = "length body - got"
    have "readBody_loop n (body, got, r) = readBody_loop n (body', length body, drop ?w r)"
      using grow(3) by (subst readBody_loop.simps) simp
    also have "\<dots> = Some (if n - length body \<le> length (drop ?w r)
        then Ok (take (length body) body' @ take (n - length body) (drop ?w r), drop (n - length body) (drop ?w r))
        else Err ErrUnexpectedEOF)"
      using grow inv by (intro less.hyps) (auto simp: body_inv_def)
    also have "\<dots> = Some (if n - got \<le> length r then Ok (take got body @ take (n - got) r, drop (n - got) r) else Err ErrUnexpectedEOF)"
    proof -
      have n: "n - got = ?w + (n - length body)" using inv by simp
      show ?thesis
        using grow(2,4) inv unfolding n take_add by (auto simp: add.commute)
    qed
    finally show ?thesis .
  qed
qed

lemma readBody_eq:
  assumes "pool_ok pool"
  shows "readBody pool n r =
    Some (if n \<le> length r then Ok (take n r, drop n r)
          else if n \<le> largeBodyChunk \<and> r = [] then Err EOF else Err ErrUnexpectedEOF)"
proof -
  obtain buf where buf: "acquireBuf pool n = (Ok buf :: byte list gores)" "length buf = n"
    using acquireBuf_Ok [OF assms] by blast
  obtain first where first: "acquireBuf pool largeBodyChunk = (Ok first :: byte list gores)" "length first = largeBodyChunk"
    using acquireBuf_Ok [OF assms] by blast
  show ?thesis
  proof (cases "n \<le> largeBodyChunk")
    case True
    then show ?thesis by (auto simp: readBody_def buf ReadFull_def)
  next
    case False
    then have "body_inv n (first, 0, r)"
      by (simp add: body_inv_def first largeBodyChunk_def)
    from readBody_loop_eq [OF this] False show ?thesis
      by (simp add: readBody_def first)
  qed
qed

text \<open>The states the loop goes through for a declared length \<open>n\<close> and a stream \<open>r0\<close>.\<close>

inductive body_reach :: "nat \<Rightarrow> byte list \<Rightarrow> body_state \<Rightarrow> bool" for n r0 where
  start: "length first = largeBodyChunk \<Longrightarrow> body_reach n r0 (first, 0, r0)"
| step: "body_reach n r0 s \<Longrightarrow> readBody_step n s = Inr s' \<Longrightarrow> body_reach n r0 s'"

lemma body_reach_bound:
  assumes "body_reach n r0 s" and "largeBodyChunk < n"
  shows "body_inv n s \<and> (case s of (body, got, r) \<Rightarrow>
    length r0 = got + length r \<and> (length body \<le> largeBodyChunk \<or> length body \<le> 8 * got))"
  using assms
proof (induction rule: body_reach.induct)
  case (start first)
  then show ?case by (simp add: body_inv_def largeBodyChunk_def)
next
  case (step s s')
  obtain body got r where s: "s = (body, got, r)" by (cases s)
  with step have inv: "body_inv n (body, got, r)" and len: "length r0 = got + length r" by simp_all
  from inv show ?case
  proof (cases rule: readBody_step_cases)
    case (grow body')
    then have s': "s' = (body', length body, drop (length body - got) r)"
      using step.hyps(2) s by simp
    show ?thesis
      using grow len inv by (simp add: s' body_inv_def)
  qed (use step.hyps(2) s in simp_all)
qed

subsection \<open>Lemmas: no panic\<close>

lemma mapOk_eq_Panic [simp]: "mapOk f m = Panic \<longleftrightarrow> m = Panic"
  by (simp add: mapOk_def bindR_eq_Panic)

lemma mapOk_Ok [simp]: "mapOk f (Ok x) = Ok (f x)"
  by (simp add: mapOk_def)

lemma decodeBody_not_Panic:
  assumes "length bp < 4294967296"
  shows "decodeBody bp t flags \<noteq> Panic"
  by (simp add: decodeBody_def decodePublish_not_Panic [OF assms] trimmed_decoders_not_Panic [OF assms]
      subscribe_decoders_not_Panic [OF assms] connect_decoders_not_Panic [OF assms])

lemma checkReasonList_not_Panic [simp]: "checkReasonList t rcs \<noteq> Panic"
  by (induction rcs) (simp_all add: bindR_eq_Panic)

lemma checkFilters_not_Panic [simp]: "checkFilters t fs \<noteq> Panic"
  by (induction fs) (simp_all add: bindR_eq_Panic)

lemma checkTopics_not_Panic [simp]: "checkTopics t ts \<noteq> Panic"
  by (induction ts) (simp_all add: bindR_eq_Panic)

lemma validatePacket_not_Panic [simp]: "validatePacket p \<noteq> Panic"
  by (cases p) (auto simp: Let_def bindR_eq_Panic split: prod.splits option.splits)

lemma finishPacket_not_Panic:
  assumes "out \<noteq> Panic" and "\<And>bp r. out = Ok (bp, r) \<Longrightarrow> length bp < 4294967296"
  shows "finishPacket t flags out \<noteq> Panic"
  unfolding finishPacket_def
  using assms decodeBody_not_Panic by (intro no_panic) auto

lemma ReadVarint_cases:
  obtains (err) e where "ReadVarint r = Err e"
  | (ok) m k where "DecodeVarint r = Ok (m, k)" "ReadVarint r = Ok (m, k, drop k r)" "unat m < 268435456"
proof (cases "DecodeVarint r")
  case (Ok p)
  then obtain m k where p: "DecodeVarint r = Ok (m, k)" by (cases p) auto
  moreover have "unat m < 268435456"
    using DecodeVarint_OkD(4) [OF p] by (simp add: word_le_nat_alt MaxVarintValue_def)
  ultimately show thesis using ok by (simp add: ReadVarint_DecodeVarint)
qed (use err in \<open>simp_all add: ReadVarint_DecodeVarint\<close>)

lemma readBody_total:
  assumes "pool_ok pool"
  obtains out where "readBody pool n r = Some out" "out \<noteq> Panic" "\<And>bp r'. out = Ok (bp, r') \<Longrightarrow> length bp = n"
  by (rule that [OF readBody_eq [OF assms]]) (auto split: if_splits)

lemma ReadPacket_total:
  assumes "pool_ok pool"
  shows "\<exists>out reports. ReadPacket pool d r = Some (out, reports) \<and> out \<noteq> Panic"
proof (cases r)
  case Nil
  then show ?thesis by (simp add: ReadPacket_def)
next
  case (Cons b0 r')
  let ?t = "drop_bit 4 b0" and ?f = "b0 AND 0x0F"
  show ?thesis
  proof (cases r' rule: ReadVarint_cases)
    case (err e)
    then show ?thesis by (simp add: ReadPacket_def Cons Let_def)
  next
    case (ok m k)
    note rv = ok(2) and m = ok(3)
    obtain out where out: "readBody pool (unat m) (drop k r') = Some out" "out \<noteq> Panic"
        "\<And>bp r'. out = Ok (bp, r') \<Longrightarrow> length bp = unat m"
      using readBody_total [OF assms] by blast
    have fin: "finishPacket t f out \<noteq> Panic" for t f
      using out(2,3) m by (intro finishPacket_not_Panic) auto
    obtain perr tol where "checkHeader ?t ?f m (k = VarintSize m) = (perr, tol)"
      by (cases "checkHeader ?t ?f m (k = VarintSize m)")
    then show ?thesis
      using fin by (cases perr) (auto simp: ReadPacket_def Cons Let_def rv out(1))
  qed
qed

subsection \<open>Lemmas: what an accepted packet says about the stream\<close>

lemma decodeBody_Type: "decodeBody bp t flags = Ok p \<Longrightarrow> Packet_Type p = t"
  by (auto simp: decodeBody_def mapOk_def bindR_eq_Ok decodePubResp_def Let_def split: if_splits)

lemma drop_bit_byte_le: "drop_bit 4 (b :: byte) \<le> 0x0F"
proof -
  have "unat (drop_bit 4 b) < 16"
    using unat_less(1) [of b] by (simp add: drop_bit_eq_div unat_div less_mult_imp_div_less)
  then show ?thesis by (simp add: word_le_nat_alt)
qed

text \<open>A header that is accepted, or that lenient decoding may let through.\<close>

lemma checkHeader_accepts:
  assumes "checkHeader t flags m minimal = (perr, tol)" and "perr = None \<or> tol"
  shows "t = PINGREQ \<or> t = PINGRESP \<longrightarrow> m = 0"
    and "1 \<le> t \<longrightarrow> t \<le> AUTH \<longrightarrow> t \<noteq> PUBLISH \<longrightarrow> t \<noteq> PINGRESP \<or> perr = None \<longrightarrow> flags = fixedFlags t"
  using assms by (auto simp: checkHeader_def split: if_splits)

lemma ReadPacket_OkD:
  assumes "pool_ok pool" and "ReadPacket pool d r = Some (Ok (p, rest), reports)"
  obtains b0 r' m k flags where "r = b0 # r'" and "DecodeVarint r' = Ok (m, k)" and "k + unat m \<le> length r'"
    and "rest = drop (k + unat m) r'" and "maxPacket d = 0 \<or> 1 + k + unat m \<le> unat (maxPacket d)"
    and "decodeBody (take (unat m) (drop k r')) (drop_bit 4 b0) flags = Ok p" and "validatePacket p = Ok ()"
    and "reports = [] \<longrightarrow> flags = b0 AND 0x0F \<and> take k r' = vbi (unat m)" and "lenient d \<or> reports = []"
    and "reports \<noteq> [] \<longrightarrow> flags = (if drop_bit 4 b0 = PINGRESP then 0 else b0 AND 0x0F)"
    and "drop_bit 4 b0 = PINGREQ \<or> drop_bit 4 b0 = PINGRESP \<longrightarrow> m = 0"
    and "1 \<le> drop_bit 4 b0 \<longrightarrow> drop_bit 4 b0 \<noteq> PUBLISH \<longrightarrow> drop_bit 4 b0 \<noteq> PINGRESP \<or> reports = [] \<longrightarrow>
      b0 AND 0x0F = fixedFlags (drop_bit 4 b0)"
proof -
  obtain b0 r' where r: "r = b0 # r'"
    using assms(2) by (cases r) (simp_all add: ReadPacket_def)
  show thesis
  proof (cases r' rule: ReadVarint_cases)
    case (err e)
    then show ?thesis using assms(2) by (simp add: ReadPacket_def r Let_def)
  next
    case (ok m k)
    have fin: "k + unat m \<le> length r' \<and> rest' = drop (k + unat m) r' \<and>
        decodeBody (take (unat m) (drop k r')) t f = Ok p' \<and> validatePacket p' = Ok ()"
      if "map_option (\<lambda>out. (finishPacket t f out, rs)) (readBody pool (unat m) (drop k r')) = Some (Ok (p', rest'), rs')" for t f rs rs' p' rest'
      using that DecodeVarint_OkD(3) [OF ok(1)]
      by (auto simp: readBody_eq [OF assms(1)] finishPacket_def bindR_eq_Ok add.commute split: if_splits)
    obtain perr tol where chk: "checkHeader (drop_bit 4 b0) (b0 AND 0x0F) m (k = VarintSize m) = (perr, tol)"
      by (cases "checkHeader (drop_bit 4 b0) (b0 AND 0x0F) m (k = VarintSize m)")
    have size: "maxPacket d = 0 \<or> 1 + k + unat m \<le> unat (maxPacket d)"
      using assms(2) by (auto simp: ReadPacket_def r ok Let_def word_gt_0 not_less split: if_splits)
    have tol: "perr = None \<or> tol"
      using assms(2) size chk by (cases perr) (auto simp: ReadPacket_def r ok Let_def split: if_splits)
    note hdr = checkHeader_accepts [OF chk tol]
    show ?thesis
    proof (cases perr)
      case None
      then have minimal: "take k r' = vbi (unat m)"
        using chk DecodeVarint_OkD(6) [OF ok(1)] by (auto simp: checkHeader_def split: if_splits)
      from None have "map_option (\<lambda>out. (finishPacket (drop_bit 4 b0) (b0 AND 0x0F) out, [])) (readBody pool (unat m) (drop k r')) =
          Some (Ok (p, rest), reports)"
        using assms(2) size chk by (auto simp: ReadPacket_def r ok Let_def split: if_splits)
      from fin [OF this] this have "reports = []" and f: "k + unat m \<le> length r'" "rest = drop (k + unat m) r'"
          "decodeBody (take (unat m) (drop k r')) (drop_bit 4 b0) (b0 AND 0x0F) = Ok p" "validatePacket p = Ok ()"
        by auto
      then show ?thesis
        using hdr None drop_bit_byte_le by (intro that [OF r ok(1) f(1,2) size f(3,4)]) (auto simp: minimal)
    next
      case (Some e)
      then have len: "lenient d" and "map_option (\<lambda>out. (finishPacket (drop_bit 4 b0) (if drop_bit 4 b0 = PINGRESP then 0 else b0 AND 0x0F) out, [e]))
          (readBody pool (unat m) (drop k r')) = Some (Ok (p, rest), reports)"
        using assms(2) size chk by (auto simp: ReadPacket_def r ok Let_def split: if_splits)
      from fin [OF this(2)] this(2) have "reports \<noteq> []" and f: "k + unat m \<le> length r'" "rest = drop (k + unat m) r'"
          "decodeBody (take (unat m) (drop k r')) (drop_bit 4 b0) (if drop_bit 4 b0 = PINGRESP then 0 else b0 AND 0x0F) = Ok p"
          "validatePacket p = Ok ()"
        by auto
      then show ?thesis
        using hdr len drop_bit_byte_le by (intro that [OF r ok(1) f(1,2) size f(3,4)]) auto
    qed
  qed
qed

end
