(* ===== verification/Packet_Codec.thy ===== *)
theory Packet_Codec
  imports Decoder
begin

text \<open>
  Encoders against the decoder. The locale \<open>packet_codec\<close> is the contract between one packet type's
  encoder and \<open>ReadPacket\<close>; it is interpreted for each of the library's packet types on the
  definitions of the packet theories, so that whatever the library writes it also reads back.
\<close>

subsection \<open>The contract of a packet type\<close>

text \<open>
  The contract between an encoder and the decoder: for valid options the body decodes to the
  packet, the packet passes validation, and the fixed-header flags are the ones the type demands.
  Every encoder of the library meets it, so everything proved here holds for all packet types.
\<close>

definition frame_bytes :: "PacketType \<Rightarrow> byte \<Rightarrow> byte list \<Rightarrow> byte list" where
  "frame_bytes t flags body = (push_bit 4 t OR flags) # vbi (length body) @ body"

lemma header_byte:
  fixes t f :: byte
  assumes "t < 16" and "f < 16"
  shows "drop_bit 4 (push_bit 4 t OR f) = t" "(push_bit 4 t OR f) AND 0x0F = f"
proof -
  have t: "take_bit 4 t = t" and f: "take_bit 4 f = f"
    using assms by (simp_all add: take_bit_eq_mod word_arith_nat_mod word_less_nat_alt)
  have bits: "bit t n \<Longrightarrow> n < 4" "bit f n \<Longrightarrow> n < 4" for n
    using t f by (metis bit_take_bit_iff)+
  then have high: "\<not> bit f (4 + n)" for n
    by (metis add_lessD1 less_irrefl)
  show "drop_bit 4 (push_bit 4 t OR f) = t"
    using bits high by (auto intro!: bit_word_eqI simp: bit_simps)
  have "(0x0F::byte) = mask 4" by (simp add: mask_eq_exp_minus_1)
  then have "(push_bit 4 t OR f) AND 0x0F = take_bit 4 (push_bit 4 t OR f)"
    by (simp only: take_bit_eq_mask)
  also have "\<dots> = f"
    using bits by (auto intro!: bit_word_eqI simp: bit_simps)
  finally show "(push_bit 4 t OR f) AND 0x0F = f" .
qed

locale packet_codec =
  fixes ptype :: "'o \<Rightarrow> PacketType"
    and flags :: "'o \<Rightarrow> byte"
    and body :: "'o \<Rightarrow> byte list"
    and pkt :: "'o \<Rightarrow> Packet"
    and valid :: "'o \<Rightarrow> bool"
  assumes type_range: "valid x \<Longrightarrow> CONNECT \<le> ptype x \<and> ptype x \<le> AUTH"
    and flags_ok: "valid x \<Longrightarrow> flags x < 16 \<and> (ptype x \<noteq> PUBLISH \<longrightarrow> flags x = fixedFlags (ptype x))"
    and ping_empty: "valid x \<Longrightarrow> ptype x = PINGREQ \<or> ptype x = PINGRESP \<Longrightarrow> body x = []"
    and decode: "valid x \<Longrightarrow> length (body x) < 268435456 \<Longrightarrow> decodeBody (body x) (ptype x) (flags x) = Ok (pkt x)"
    and accept: "valid x \<Longrightarrow> validatePacket (pkt x) = Ok ()"
begin

lemma ReadPacket_frame:
  assumes "pool_ok pool" and "valid x" and "length (body x) < 268435456"
    and "maxPacket d = 0 \<or> length (frame_bytes (ptype x) (flags x) (body x)) \<le> unat (maxPacket d)"
  shows "ReadPacket pool d (frame_bytes (ptype x) (flags x) (body x) @ rest) = Some (Ok (pkt x, rest), [])"
proof -
  let ?t = "ptype x" and ?f = "flags x" and ?b = "body x"
  define h where "h = push_bit 4 ?t OR ?f"
  have "?t < 16"
    by (rule le_less_trans [OF conjunct2 [OF type_range [OF assms(2)]]]) simp
  then have hdr: "drop_bit 4 h = ?t" "h AND 0x0F = ?f"
    using header_byte flags_ok [OF assms(2)] by (simp_all add: h_def)
  have un: "unat (of_nat (length ?b) :: u32) = length ?b" and le: "of_nat (length ?b) \<le> MaxVarintValue"
    using assms(3) by (simp_all add: unat_of_nat_u32 word_le_nat_alt MaxVarintValue_def)
  have rv: "ReadVarint (vbi (length ?b) @ ?b @ rest) = Ok (of_nat (length ?b), length (vbi (length ?b)), ?b @ rest)"
    using assms(3) by (simp add: ReadVarint_DecodeVarint DecodeVarint_vbi)
  have chk: "checkHeader ?t ?f (of_nat (length ?b)) (length (vbi (length ?b)) = VarintSize (of_nat (length ?b))) = (None, False)"
    using flags_ok [OF assms(2)] ping_empty [OF assms(2)] VarintSize_of_nat [OF assms(3)] by (auto simp: checkHeader_def)
  have "readBody pool (length ?b) (?b @ rest) = Some (Ok (?b, rest))"
    using readBody_eq [OF assms(1)] by simp
  moreover have "finishPacket ?t ?f (Ok (?b, rest)) = Ok (pkt x, rest)"
    using decode [OF assms(2,3)] accept [OF assms(2)] by (simp add: finishPacket_def)
  ultimately show ?thesis
    using assms(4)
    by (simp add: ReadPacket_def frame_bytes_def hdr rv chk un Let_def word_less_nat_alt word_gt_0 flip: h_def) (auto simp: not_less)
qed

end

subsection \<open>Property lists the encoders emit are the ones the decoder accepts\<close>

lemma validateProps_of_valid: "props_valid t allowed ps \<Longrightarrow> validateProps t (enc_props ps) allowed = Ok ()"
  using validateProps_Ok by blast

text \<open>\<open>props_valid\<close> without the condition on duplicates, which is local to each property.\<close>

definition props_ok :: "PacketType \<Rightarrow> byte list \<Rightarrow> property list \<Rightarrow> bool" where
  "props_ok t pids ps =
     (wf_properties ps \<and> list_all (allowed_prop (propMask pids)) ps \<and> list_all (value_ok t) ps)"

lemma props_valid_ok:
  "props_valid t (propMask pids) ps \<longleftrightarrow> props_ok t pids ps \<and> distinct (single_props t ps)"
  by (auto simp: props_valid_def props_ok_def)

lemma props_ok_append: "props_ok t pids (ps @ qs) \<longleftrightarrow> props_ok t pids ps \<and> props_ok t pids qs"
  by (auto simp: props_ok_def)

lemma props_ok_p:
  "i \<in> {PropPayloadFormat, PropRequestProblemInfo, PropRequestResponseInfo, PropMaximumQoS,
     PropRetainAvailable, PropWildcardSubAvailable, PropSubscriptionIDAvailable,
     PropSharedSubAvailable} \<Longrightarrow> i \<in> set pids \<Longrightarrow> \<forall>b. v = Some b \<longrightarrow> b \<le> 1 \<Longrightarrow> props_ok t pids (p1 i v)"
  "j \<in> {PropServerKeepAlive, PropTopicAliasMaximum, PropTopicAlias} \<Longrightarrow> j \<in> set pids \<Longrightarrow> props_ok t pids (p2 j w)"
  "k \<in> {PropServerKeepAlive, PropReceiveMaximum} \<Longrightarrow> k \<in> set pids \<Longrightarrow>
     k = PropReceiveMaximum \<longrightarrow> h \<noteq> Some 0 \<Longrightarrow> props_ok t pids (p2P k h)"
  "l \<in> {PropMessageExpiryInterval, PropSessionExpiryInterval, PropWillDelayInterval, PropMaximumPacketSize} \<Longrightarrow>
     l \<in> set pids \<Longrightarrow> l = PropMaximumPacketSize \<longrightarrow> d \<noteq> Some 0 \<Longrightarrow> props_ok t pids (p4 l d)"
  by (auto simp: props_ok_def wf_properties_p props_valid_rules simp del: propMask.simps)

lemma props_ok_s:
  "i \<in> {PropContentType, PropResponseTopic, PropAssignedClientID, PropAuthMethod,
     PropResponseInformation, PropServerReference, PropReasonString} \<Longrightarrow> i \<in> set pids \<Longrightarrow>
     length s < 65536 \<Longrightarrow> utf8_ok s \<Longrightarrow> i = PropResponseTopic \<longrightarrow> \<not> ContainsWildcard s \<Longrightarrow> props_ok t pids (pS i s)"
  "j \<in> {PropCorrelationData, PropAuthData} \<Longrightarrow> j \<in> set pids \<Longrightarrow> length (nil_bytes b) < 65536 \<Longrightarrow>
     props_ok t pids (pB j b)"
  "PropUserProperty \<in> set pids \<Longrightarrow> list_all wf_user ups \<Longrightarrow>
     list_all (\<lambda>up. utf8_ok (Key up) \<and> utf8_ok (Value up)) ups \<Longrightarrow> props_ok t pids (pU ups)"
  by (auto simp: props_ok_def wf_properties_p nil_bytes_def props_valid_rules simp del: propMask.simps)
    (auto simp: list_all_iff props_valid_rules)

lemma props_ok_v:
  assumes "PropSubscriptionIdentifier \<in> set pids" and "\<forall>n. d = Some n \<longrightarrow> n \<noteq> 0 \<and> n \<le> MaxVarintValue"
  shows "props_ok t pids (pV PropSubscriptionIdentifier d)"
proof (cases d)
  case (Some n)
  then have n: "n \<noteq> 0" "unat n < 268435456"
    using assms(2) by (auto simp: word_le_nat_alt MaxVarintValue_def)
  moreover have "wf_properties (pV PropSubscriptionIdentifier d)"
    by (rule wf_properties_pV) (use Some n in simp)
  moreover have "DecodeVarint (vbi (unat n)) = Ok (n, length (vbi (unat n)))"
    using DecodeVarint_vbi [of "unat n" "[]"] n by simp
  ultimately show ?thesis
    using assms(1) Some by (auto simp: props_ok_def props_valid_rules value_ok_def simp del: propMask.simps)
qed (simp add: props_ok_def pV_def)

text \<open>No property occurs twice: each piece's identifier is new in the rest of the list.\<close>

lemma distinct_single_props:
  "i \<notin> set (single_props t ps) \<Longrightarrow> distinct (single_props t (p1 i v @ ps)) \<longleftrightarrow> distinct (single_props t ps)"
  "i \<notin> set (single_props t ps) \<Longrightarrow> distinct (single_props t (p2 i w @ ps)) \<longleftrightarrow> distinct (single_props t ps)"
  "i \<notin> set (single_props t ps) \<Longrightarrow> distinct (single_props t (p2P i h @ ps)) \<longleftrightarrow> distinct (single_props t ps)"
  "i \<notin> set (single_props t ps) \<Longrightarrow> distinct (single_props t (p4 i d @ ps)) \<longleftrightarrow> distinct (single_props t ps)"
  "i \<notin> set (single_props t ps) \<Longrightarrow> distinct (single_props t (pV i d @ ps)) \<longleftrightarrow> distinct (single_props t ps)"
  "i \<notin> set (single_props t ps) \<Longrightarrow> distinct (single_props t (pS i s @ ps)) \<longleftrightarrow> distinct (single_props t ps)"
  "i \<notin> set (single_props t ps) \<Longrightarrow> distinct (single_props t (pB i x @ ps)) \<longleftrightarrow> distinct (single_props t ps)"
  "distinct (single_props t (pU ups @ ps)) \<longleftrightarrow> distinct (single_props t ps)"
  "distinct (single_props t (pU ups))" "distinct (single_props t (pB i x))"
  by (simp_all add: single_props_append single_props_p)

lemma in_single_props:
  "j \<in> set (single_props t (ps @ qs)) \<longleftrightarrow> j \<in> set (single_props t ps) \<or> j \<in> set (single_props t qs)"
  "j \<in> set (single_props t (p1 i v)) \<longleftrightarrow> j = i \<and> v \<noteq> None \<and> \<not> multiProp t i"
  "j \<in> set (single_props t (p2 i w)) \<longleftrightarrow> j = i \<and> w \<noteq> 0 \<and> \<not> multiProp t i"
  "j \<in> set (single_props t (p2P i h)) \<longleftrightarrow> j = i \<and> h \<noteq> None \<and> \<not> multiProp t i"
  "j \<in> set (single_props t (p4 i d)) \<longleftrightarrow> j = i \<and> d \<noteq> None \<and> \<not> multiProp t i"
  "j \<in> set (single_props t (pV i d)) \<longleftrightarrow> j = i \<and> d \<noteq> None \<and> \<not> multiProp t i"
  "j \<in> set (single_props t (pS i s)) \<longleftrightarrow> j = i \<and> s \<noteq> [] \<and> \<not> multiProp t i"
  "j \<in> set (single_props t (pB i x)) \<longleftrightarrow> j = i \<and> x \<noteq> None \<and> \<not> multiProp t i"
  "j \<notin> set (single_props t (pU ups))"
  by (auto simp: single_props_append single_props_p)

lemmas props_ok_rules = props_valid_ok props_ok_append props_ok_p props_ok_s props_ok_v
  distinct_single_props in_single_props

lemma pubresp_props_valid:
  "validatePubRespOpts t opts = Ok () \<Longrightarrow> props_valid t reasonProps (pubresp_props opts)"
  unfolding reasonProps_def pubresp_props_def validatePubRespOpts_Ok by (simp add: props_ok_rules del: propMask.simps)

lemma disconnect_props_valid:
  "validateDisconnectOpts opts = Ok () \<Longrightarrow> props_valid DISCONNECT (allowedProps DISCONNECT) (disconnect_props opts)"
  unfolding allowedProps_def disconnect_props_def validateDisconnectOpts_Ok by (simp add: props_ok_rules del: propMask.simps)

lemma auth_props_valid:
  "validateAuthOpts opts = Ok () \<Longrightarrow> props_valid AUTH (allowedProps AUTH) (auth_props opts)"
  unfolding allowedProps_def auth_props_def validateAuthOpts_Ok by (simp add: props_ok_rules del: propMask.simps)

lemma subscribe_props_valid:
  "validateSubscribeOpts opts = Ok () \<Longrightarrow> props_valid SUBSCRIBE (allowedProps SUBSCRIBE) (subscribe_props opts)"
  unfolding allowedProps_def subscribe_props_def validateSubscribeOpts_Ok by (simp add: props_ok_rules del: propMask.simps)

lemma unsubscribe_props_valid:
  "validateUnsubscribeOpts opts = Ok () \<Longrightarrow> props_valid UNSUBSCRIBE (allowedProps UNSUBSCRIBE) (pU (uo_UserProperties opts))"
  unfolding allowedProps_def userProp_def validateUnsubscribeOpts_Ok by (simp add: props_ok_rules del: propMask.simps)

lemma suback_props_valid:
  "validateAckList t (sko_PacketID opts) (sko_ReasonCodes opts) (sko_ReasonString opts) (sko_UserProperties opts) = Ok () \<Longrightarrow>
    props_valid t reasonProps (suback_props opts)"
  unfolding reasonProps_def suback_props_def validateAckList_Ok by (simp add: props_ok_rules del: propMask.simps)

lemma will_props_valid: "valid_will w \<Longrightarrow> props_valid CONNECT willProps (will_props w)"
  unfolding willProps_def will_props_def valid_will_def by (simp add: props_ok_rules del: propMask.simps)

lemma connect_props_valid:
  "valid_connect opts \<Longrightarrow> props_valid CONNECT (allowedProps CONNECT) (connect_props opts)"
  unfolding allowedProps_def connect_props_def valid_connect_def by (simp add: props_ok_rules del: propMask.simps)

lemma connack_props_valid:
  "valid_connack opts \<Longrightarrow> props_valid CONNACK (allowedProps CONNACK) (connack_props opts)"
  unfolding allowedProps_def connack_props_def valid_connack_def by (simp add: props_ok_rules del: propMask.simps)

subsection \<open>The packet types\<close>

text \<open>The packets the decoder makes of the options.\<close>

definition pubresp_of :: "PacketType \<times> PubRespOpts \<Rightarrow> Packet" where
  "pubresp_of = (\<lambda>(t, opts). PPubResp
     \<lparr>pr_PacketID = ro_PacketID opts, pr_ReasonCode = ro_ReasonCode opts,
      pr_Properties = PropertiesFromBytes (enc_props (pubresp_props opts)), pr_pktType = t\<rparr>)"

definition valid_pubresp :: "PacketType \<times> PubRespOpts \<Rightarrow> bool" where
  "valid_pubresp = (\<lambda>(t, opts). t \<in> {PUBACK, PUBREC, PUBREL, PUBCOMP} \<and> validatePubRespOpts t opts = Ok ())"

definition connack_of :: "ConnackOpts \<Rightarrow> Packet" where
  "connack_of opts = PConnack
     \<lparr>ca_SessionPresent = cko_SessionPresent opts, ca_ReasonCode = cko_ReasonCode opts,
      ca_Properties = PropertiesFromBytes (enc_props (connack_props opts))\<rparr>"

definition subscribe_of :: "SubscribeOpts \<Rightarrow> Packet" where
  "subscribe_of opts = PSubscribe
     \<lparr>sb_PacketID = so_PacketID opts, sb_Properties = PropertiesFromBytes (enc_props (subscribe_props opts)),
      sb_Filters = so_Filters opts\<rparr>"

definition unsubscribe_of :: "UnsubscribeOpts \<Rightarrow> Packet" where
  "unsubscribe_of opts = PUnsubscribe
     \<lparr>us_PacketID = uo_PacketID opts, us_Properties = PropertiesFromBytes (enc_props (pU (uo_UserProperties opts))),
      us_Topics = uo_Topics opts\<rparr>"

definition ack_of :: "SubackOpts \<Rightarrow> Suback" where
  "ack_of opts =
     \<lparr>sa_PacketID = sko_PacketID opts, sa_Properties = PropertiesFromBytes (enc_props (suback_props opts)),
      sa_ReasonCodes = sko_ReasonCodes opts\<rparr>"

definition valid_ack :: "PacketType \<Rightarrow> SubackOpts \<Rightarrow> bool" where
  "valid_ack t opts \<longleftrightarrow>
     validateAckList t (sko_PacketID opts) (sko_ReasonCodes opts) (sko_ReasonString opts) (sko_UserProperties opts) = Ok ()"

definition disconnect_of :: "DisconnectOpts \<Rightarrow> Packet" where
  "disconnect_of opts = PDisconnect
     \<lparr>di_ReasonCode = do_ReasonCode opts, di_Properties = PropertiesFromBytes (enc_props (disconnect_props opts))\<rparr>"

definition auth_of :: "AuthOpts \<Rightarrow> Packet" where
  "auth_of opts = PAuth
     \<lparr>au_ReasonCode = ao_ReasonCode opts, au_Properties = PropertiesFromBytes (enc_props (auth_props opts))\<rparr>"

lemma valid_publish_qos: "valid_publish opts \<Longrightarrow> po_QoS opts \<le> 2"
  by (simp add: valid_publish_def)

lemma publishFlags_less: "po_QoS opts \<le> 2 \<Longrightarrow> publishFlags opts < 16"
  using qos_cases [of "po_QoS opts"] by (auto simp: publishFlags_def)

lemma raw_PropertiesFromBytes [simp]: "raw (PropertiesFromBytes b) = b"
  by (simp add: PropertiesFromBytes_def)

lemma validatePacket_publish:
  assumes v: "valid_publish opts"
  shows "validatePacket (PPublish (publish_of opts)) = Ok ()"
proof -
  have scan: "scanTopicName (po_Topic opts) = (True, False)"
    using v scanTopicName_eq [of "po_Topic opts"]
    by (simp add: valid_publish_def validUTF8_eq prod_eq_iff)
  have "Properties_Uint16 (PropertiesFromBytes (enc_props (publish_props opts))) PropTopicAlias \<noteq> None"
    if "po_Topic opts = []"
    using v that arg_cong [OF Publish_Opts_publish_of [OF v], of po_TopicAlias]
    by (cases "Properties_Uint16 (PropertiesFromBytes (enc_props (publish_props opts))) PropTopicAlias")
      (simp_all add: Publish_Opts_def publish_of_def valid_publish_def)
  then show ?thesis
    using v validateProps_of_valid [OF publish_props_valid [OF v]]
    by (auto simp: publish_of_def valid_publish_def scan)
qed

lemma checkReasonList_Ok: "checkReasonList t rcs = Ok () \<longleftrightarrow> list_all (\<lambda>rc. rc \<in> set (reasonCodes t)) rcs"
  by (induction rcs) (auto simp: bindR_eq_Ok checkReason_def)

lemma checkFilters_Ok:
  "checkFilters t fs = Ok () \<longleftrightarrow>
    list_all (\<lambda>f. valid_filter (sf_Topic f) \<and> \<not> (sf_NoLocal f \<and> IsSharedFilter (sf_Topic f))) fs"
  by (induction fs) (auto simp: bindR_eq_Ok ValidTopicFilter_Ok)

lemma checkTopics_Ok: "checkTopics t fs = Ok () \<longleftrightarrow> list_all valid_filter fs"
  by (induction fs) (auto simp: bindR_eq_Ok ValidTopicFilter_Ok)

lemmas codec_defs = decodeBody_def mapOk_def bindR_eq_Ok validUTF8_eq checkReason_def fixedFlags_def
  checkReasonList_Ok checkFilters_Ok checkTopics_Ok validateProps_of_valid ValidTopicName_Ok

interpretation publish_codec: packet_codec "\<lambda>_. PUBLISH" publishFlags
  "\<lambda>opts. publish_varhdr opts @ po_Payload opts" "\<lambda>opts. PPublish (publish_of opts)" valid_publish
  by unfold_locales
    (auto simp: validatePacket_publish publishFlags_less valid_publish_qos decodePublish_enc publish_remaining_def codec_defs
      simp del: validatePacket.simps)

interpretation pubresp_codec: packet_codec fst "\<lambda>x. fixedFlags (fst x)" "\<lambda>x. pubresp_body (snd x)" pubresp_of valid_pubresp
proof unfold_locales
  fix x
  assume v: "valid_pubresp x"
  obtain t opts where x: "x = (t, opts)" by (cases x)
  have t: "t \<in> {PUBACK, PUBREC, PUBREL, PUBCOMP}" and ok: "validatePubRespOpts t opts = Ok ()"
    using v by (auto simp: valid_pubresp_def x)
  show "decodeBody (pubresp_body (snd x)) (fst x) (fixedFlags (fst x)) = Ok (pubresp_of x)"
    if "length (pubresp_body (snd x)) < 268435456"
    using decodePubResp_enc [of opts t] that t by (auto simp: x pubresp_of_def codec_defs)
  show "validatePacket (pubresp_of x) = Ok ()"
    using t ok validateProps_of_valid [OF pubresp_props_valid [OF ok]]
    by (auto simp: x pubresp_of_def allowedProps_def validatePubRespOpts_Ok codec_defs)
qed (auto simp: valid_pubresp_def fixedFlags_def)

interpretation connect_codec: packet_codec "\<lambda>_. CONNECT" "\<lambda>_. 0" connect_body "\<lambda>opts. PConnect (connect_of opts)" valid_connect
proof unfold_locales
  fix opts
  assume v: "valid_connect opts"
  have "\<And>w. co_Will opts = Some w \<Longrightarrow> valid_will w"
    using v by (simp add: valid_connect_def)
  then show "validatePacket (PConnect (connect_of opts)) = Ok ()"
    using v connect_props_valid [OF v] will_props_valid
    by (cases "co_Will opts") (auto simp: connect_of_def will_of_def valid_connect_def valid_will_def codec_defs)
qed (auto simp: decodeConnect_enc codec_defs)

interpretation connack_codec: packet_codec "\<lambda>_. CONNACK" "\<lambda>_. 0" connack_body connack_of valid_connack
  by unfold_locales (auto simp: connack_of_def connack_props_valid valid_connack_def decodeConnack_enc codec_defs)

interpretation subscribe_codec: packet_codec "\<lambda>_. SUBSCRIBE" "\<lambda>_. 2" subscribe_body subscribe_of
  "\<lambda>opts. validateSubscribeOpts opts = Ok ()"
  by unfold_locales
    (auto simp: subscribe_of_def subscribe_props_valid decodeSubscribe_enc codec_defs,
     auto simp: validateSubscribeOpts_Ok list_all_iff)

interpretation unsubscribe_codec: packet_codec "\<lambda>_. UNSUBSCRIBE" "\<lambda>_. 2" unsubscribe_body unsubscribe_of
  "\<lambda>opts. validateUnsubscribeOpts opts = Ok ()"
  by unfold_locales
    (auto simp: unsubscribe_of_def unsubscribe_props_valid decodeUnsubscribe_enc codec_defs,
     auto simp: validateUnsubscribeOpts_Ok)

interpretation suback_codec: packet_codec "\<lambda>_. SUBACK" "\<lambda>_. 0" suback_body "\<lambda>opts. PSuback (ack_of opts)" "valid_ack SUBACK"
  by unfold_locales
    (auto simp: ack_of_def valid_ack_def validateAckList_Ok decodeSuback_def readSubAckLike_enc codec_defs allowedProps_def suback_props_valid)

interpretation unsuback_codec: packet_codec "\<lambda>_. UNSUBACK" "\<lambda>_. 0" suback_body "\<lambda>opts. PUnsuback (ack_of opts)" "valid_ack UNSUBACK"
  by unfold_locales
    (auto simp: ack_of_def valid_ack_def validateAckList_Ok decodeUnsuback_def readSubAckLike_enc codec_defs allowedProps_def suback_props_valid)

interpretation disconnect_codec: packet_codec "\<lambda>_. DISCONNECT" "\<lambda>_. 0" disconnect_body disconnect_of
  "\<lambda>opts. validateDisconnectOpts opts = Ok ()"
  by unfold_locales
    (auto simp: disconnect_of_def disconnect_props_valid decodeDisconnect_enc codec_defs,
     auto simp: validateDisconnectOpts_Ok)

interpretation auth_codec: packet_codec "\<lambda>_. AUTH" "\<lambda>_. 0" auth_body auth_of "\<lambda>opts. validateAuthOpts opts = Ok ()"
  by unfold_locales
    (auto simp: auth_of_def auth_props_valid decodeAuth_enc codec_defs,
     auto simp: validateAuthOpts_Ok)

text \<open>PINGREQ and PINGRESP have no options; the two types are the values of one parameter.\<close>

interpretation ping_codec: packet_codec "\<lambda>req. if req then PINGREQ else PINGRESP" "\<lambda>_. 0" "\<lambda>_. []"
  "\<lambda>req. if req then PPingreq else PPingresp" "\<lambda>_. True"
  by unfold_locales (auto simp: codec_defs)

end
