(* ===== verification/Publish_Relay.thy ===== *)
theory Publish_Relay
  imports Packet_Codec
begin

text \<open>
  A PUBLISH the decoder accepted can be sent on: its \<open>Opts\<close> are valid options. The lemmas before
  that say what a lookup in a well-formed property list found.
\<close>

lemma wf_property_stringD:
  assumes "wf_property (pid, v)" and "pid \<in> {PropContentType, PropResponseTopic, PropAssignedClientID, PropAuthMethod,
     PropResponseInformation, PropServerReference, PropReasonString, PropCorrelationData, PropAuthData}"
  obtains s where "v = str16 s" "length s < 65536"
proof -
  have "field_size v = Ok (length v)"
    using assms(1) propValueSize_of(5) [OF assms(2)] by (simp add: wf_property_def)
  then have "readUTF8String v = Ok (drop 2 v, length v)"
    by (auto simp: field_size_def readUTF8String_def bytesToString_def slice_def bindR_eq_Ok split: if_splits)
  then show thesis
    using readUTF8String_OkD [of v] that by fastforce
qed

lemma Properties_String_SomeD:
  assumes "wf_properties ps" and "pid \<in> {PropContentType, PropResponseTopic, PropAssignedClientID, PropAuthMethod,
     PropResponseInformation, PropServerReference, PropReasonString, PropCorrelationData, PropAuthData}"
  shows "Properties_String (PropertiesFromBytes (enc_props ps)) pid = Some s \<Longrightarrow> (pid, str16 s) \<in> set ps \<and> length s < 65536"
    and "Properties_Binary (PropertiesFromBytes (enc_props ps)) pid = Some s \<Longrightarrow> (pid, str16 s) \<in> set ps \<and> length s < 65536"
proof -
  have "(pid, str16 s) \<in> set ps \<and> length s < 65536"
    if "Properties_String (PropertiesFromBytes (enc_props ps)) pid = Some s \<or>
        Properties_Binary (PropertiesFromBytes (enc_props ps)) pid = Some s"
  proof (cases "map_of ps pid")
    case None
    then show ?thesis using that Properties_absent [OF assms(1)] by simp
  next
    case (Some v)
    then have "wf_property (pid, v)"
      using assms(1) map_of_SomeD by (fastforce simp: wf_properties_def list_all_iff)
    then obtain x where v: "v = str16 x" "length x < 65536"
      using wf_property_stringD [OF _ assms(2)] by blast
    with Some that have "x = s"
      using Properties_present [OF assms(1), of pid] by auto
    then show ?thesis using Some v map_of_SomeD by fastforce
  qed
  then show "Properties_String (PropertiesFromBytes (enc_props ps)) pid = Some s \<Longrightarrow> (pid, str16 s) \<in> set ps \<and> length s < 65536"
    "Properties_Binary (PropertiesFromBytes (enc_props ps)) pid = Some s \<Longrightarrow> (pid, str16 s) \<in> set ps \<and> length s < 65536"
    by blast+
qed

lemma UserProperties_in:
  "wf_properties ps \<Longrightarrow> up \<in> set (UserProperties_loop (enc_props ps)) \<Longrightarrow>
    (PropUserProperty, str16 (Key up) @ str16 (Value up)) \<in> set ps \<and> wf_user up"
proof (induction ps)
  case (Cons p ps)
  obtain i v where p: "p = (i, v)" by (cases p)
  show ?case
  proof (cases "i = PropUserProperty")
    case True
    then obtain k w where "v = str16 k @ str16 w" "length k < 65536" "length w < 65536"
      using Cons.prems(1) by (auto simp: p elim: wf_user_pair)
    then show ?thesis
      using Cons by (auto simp: p True wf_user_def)
  next
    case False
    then show ?thesis
      using Cons by (simp add: p wf_property_size)
  qed
qed simp

lemma Properties_Byte_SomeD:
  assumes "wf_properties ps" and "Properties_Byte (PropertiesFromBytes (enc_props ps)) PropPayloadFormat = Some b"
  shows "(PropPayloadFormat, [b]) \<in> set ps"
proof (cases "map_of ps PropPayloadFormat")
  case (Some v)
  then have in_ps: "(PropPayloadFormat, v) \<in> set ps" by (rule map_of_SomeD)
  then have "length v = 1"
    using assms(1) by (auto simp: wf_properties_def list_all_iff wf_property_def propValueSize_of)
  then obtain c where "v = [c]" by (cases v) auto
  then show ?thesis
    using in_ps Some Properties_Byte_present [OF assms(1)] assms(2) by auto
qed (use Properties_absent [OF assms(1)] assms(2) in simp)

lemma Properties_Uint16_SomeD:
  assumes "wf_properties ps" and "Properties_Uint16 (PropertiesFromBytes (enc_props ps)) PropTopicAlias = Some w"
  shows "(PropTopicAlias, be16 w) \<in> set ps"
proof (cases "map_of ps PropTopicAlias")
  case (Some v)
  then have in_ps: "(PropTopicAlias, v) \<in> set ps" by (rule map_of_SomeD)
  then have "length v = 2"
    using assms(1) by (auto simp: wf_properties_def list_all_iff wf_property_def propValueSize_of)
  then obtain u where "v = be16 u"
    using Uint16_OkD(2) [of v] by (auto simp: Uint16_def)
  then show ?thesis
    using in_ps Some Properties_Uint16_present [OF assms(1)] assms(2) by auto
qed (use Properties_absent [OF assms(1)] assms(2) in simp)

lemma decodePublish_OkD:
  assumes "decodePublish frame flags = Ok p"
  shows "pb_QoS p \<le> 2" "pb_Dup p \<Longrightarrow> pb_QoS p > 0" "length (pb_Topic p) < 65536"
proof -
  define q dup where "q = drop_bit 1 flags AND 0x03" and "dup = (flags AND 0x08 \<noteq> 0)"
  have dec: "q \<noteq> 3 \<and> \<not> (dup \<and> q = 0) \<and> pb_QoS p = q \<and> pb_Dup p = dup \<and> length (pb_Topic p) < 65536"
    using assms unfolding decodePublish_def Let_def q_def [symmetric] dup_def [symmetric]
    by (elim Ok_elims)
      (auto simp: bytesToString_def slice_def min_def split: if_split_asm intro: le_less_trans [OF _ unat_less(2)])
  have "q \<le> 3" by (simp add: q_def word_and_le1)
  then show "pb_QoS p \<le> 2" "pb_Dup p \<Longrightarrow> pb_QoS p > 0" "length (pb_Topic p) < 65536"
    using dec by (auto simp: word_gt_0 word_le_nat_alt word_unat_eq_iff)
qed
lemma accepted_publish:
  assumes dec: "decodePublish frame flags = Ok p" and val: "validatePacket (PPublish p) = Ok ()"
  shows "valid_publish (Publish_Opts p)"
proof -
  note D = decodePublish_OkD [OF dec]
  have scan: "fst (scanTopicName (pb_Topic p))" "\<not> snd (scanTopicName (pb_Topic p))"
    and pid: "pb_QoS p > 0 \<Longrightarrow> pb_PacketID p \<noteq> 0"
    and props: "validateProps PUBLISH (raw (pb_Properties p)) publishProps = Ok ()"
    and al: "pb_Topic p = [] \<Longrightarrow> Properties_Uint16 (pb_Properties p) PropTopicAlias \<noteq> None"
    using val by (auto simp: Let_def bindR_eq_Ok split: prod.splits if_splits option.splits)
  then have topic: "utf8_ok (pb_Topic p)" "\<not> ContainsWildcard (pb_Topic p)"
    using scanTopicName_eq [of "pb_Topic p"] by (simp_all add: validUTF8_eq)
  obtain ps where ps: "enc_props ps = raw (pb_Properties p)" and ok: "props_valid PUBLISH publishProps ps"
    using props validateProps_Ok by blast
  have pr: "pb_Properties p = PropertiesFromBytes (enc_props ps)"
    by (simp add: ps PropertiesFromBytes_def)
  have wf: "wf_properties ps" and val: "\<And>i v. (i, v) \<in> set ps \<Longrightarrow> value_ok PUBLISH (i, v)"
    using ok by (auto simp: props_valid_def list_all_iff)
  have strs: "length s < 65536 \<and> utf8_ok s \<and> (i = PropResponseTopic \<longrightarrow> \<not> ContainsWildcard s)"
    if "Properties_String (pb_Properties p) i = Some s" "i = PropContentType \<or> i = PropResponseTopic" for i s
    using that val [of i "str16 s"] Properties_String_SomeD(1) [OF wf, of i s] by (auto simp: pr value_ok_string)
  have corr: "length s < 65536" if "Properties_Binary (pb_Properties p) PropCorrelationData = Some s" for s
    using that Properties_String_SomeD(2) [OF wf, of PropCorrelationData s] by (simp add: pr)
  have pf: "b \<le> 1" if "Properties_Byte (pb_Properties p) PropPayloadFormat = Some b" for b
    using that val Properties_Byte_SomeD [OF wf] by (fastforce simp: pr value_ok_fixed)
  have ta: "w \<noteq> 0" if "Properties_Uint16 (pb_Properties p) PropTopicAlias = Some w" for w
    using that val Properties_Uint16_SomeD [OF wf] by (fastforce simp: pr value_ok_fixed)
  have us: "wf_user up \<and> utf8_ok (Key up) \<and> utf8_ok (Value up)" if "up \<in> set (UserProperties (pb_Properties p))" for up
  proof -
    have w: "wf_user up" and v: "value_ok PUBLISH (PropUserProperty, str16 (Key up) @ str16 (Value up))"
      using that UserProperties_in [OF wf, of up] val by (simp_all add: pr UserProperties_def)
    from v obtain k x where "str16 (Key up) @ str16 (Value up) = str16 k @ str16 x" "length k < 65536" "length x < 65536"
      and utf8: "utf8_ok k" "utf8_ok x"
      by (auto simp: value_ok_def)
    then have "Key up = k \<and> Value up = x"
      using w str16_pair_inj [of "Key up" "Value up" k x] by (simp add: wf_user_def)
    with w utf8 show ?thesis by simp
  qed
  show ?thesis
    unfolding valid_publish_def Publish_Opts_def PublishOpts.select_convs
    using D pid topic al strs ta corr pf us
    by (simp add: list_all_iff nil_bytes_def split: option.splits)
qed

end
