(* ===== verification/Property_Spec.thy ===== *)
theory Property_Spec
  imports Validate
begin

text \<open>
  What MQTT 5 says of a property section (tables 2-4 and 2-6 and section 3), written from the
  standard and not from the masks and tests of \<open>wire/validate.go\<close>: where each property may
  occur, how its value is encoded and which values are allowed, and which properties may be repeated.
  Identifiers and packet types are the numbers of the standard.
\<close>

subsection \<open>The tables of the standard\<close>

text \<open>Where a property may occur: in a packet of type \<open>t\<close> (\<open>Some t\<close>) or among the Will properties (\<open>None\<close>).\<close>

definition mqtt_in :: "byte \<Rightarrow> PacketType option \<Rightarrow> bool" where
  "mqtt_in pid place \<longleftrightarrow>
     pid \<in> {0x01, 0x02, 0x03, 0x08, 0x09} \<and> place \<in> {Some 3, None} \<or>
     pid = 0x0B \<and> place \<in> {Some 3, Some 8} \<or>
     pid = 0x11 \<and> place \<in> {Some 1, Some 2, Some 14} \<or>
     pid \<in> {0x12, 0x13, 0x1A, 0x24, 0x25, 0x28, 0x29, 0x2A} \<and> place = Some 2 \<or>
     pid \<in> {0x15, 0x16} \<and> place \<in> {Some 1, Some 2, Some 15} \<or>
     pid \<in> {0x17, 0x19} \<and> place = Some 1 \<or>
     pid = 0x18 \<and> place = None \<or>
     pid = 0x1C \<and> place \<in> {Some 2, Some 14} \<or>
     pid = 0x1F \<and> place \<in> {Some 2, Some 4, Some 5, Some 6, Some 7, Some 9, Some 11, Some 14, Some 15} \<or>
     pid \<in> {0x21, 0x22, 0x27} \<and> place \<in> {Some 1, Some 2} \<or>
     pid = 0x23 \<and> place = Some 3 \<or>
     pid = 0x26 \<and> place \<in> {Some 1, Some 2, Some 3, Some 4, Some 5, Some 6, Some 7, Some 8, Some 9, Some 10, Some 11, Some 14, Some 15, None}"

definition mqtt_value :: "byte \<Rightarrow> byte list \<Rightarrow> bool" where
  "mqtt_value pid v =
     (if pid \<in> {0x01, 0x17, 0x19, 0x24, 0x25, 0x28, 0x29, 0x2A} then v = [0] \<or> v = [1]
      else if pid \<in> {0x13, 0x22} then length v = 2
      else if pid \<in> {0x21, 0x23} then length v = 2 \<and> v \<noteq> [0, 0]
      else if pid \<in> {0x02, 0x11, 0x18} then length v = 4
      else if pid = 0x27 then length v = 4 \<and> v \<noteq> [0, 0, 0, 0]
      else if pid = 0x0B then length v \<le> 4 \<and> (\<exists>n. n \<noteq> 0 \<and> vbi_dec v = Some (n, length v))
      else if pid \<in> {0x03, 0x12, 0x15, 0x1A, 0x1C, 0x1F} then \<exists>s. v = str16 s \<and> length s < 65536 \<and> utf8_ok s
      else if pid = 0x08 then \<exists>s. v = str16 s \<and> length s < 65536 \<and> utf8_ok s \<and> 0x2B \<notin> set s \<and> 0x23 \<notin> set s
      else if pid \<in> {0x09, 0x16} then \<exists>b. v = str16 b \<and> length b < 65536
      else if pid = 0x26 then
        \<exists>k w. v = str16 k @ str16 w \<and> length k < 65536 \<and> length w < 65536 \<and> utf8_ok k \<and> utf8_ok w
      else False)"

text \<open>A User Property may be repeated anywhere, a Subscription Identifier in a PUBLISH.\<close>

definition mqtt_repeats :: "byte \<Rightarrow> PacketType option \<Rightarrow> bool" where
  "mqtt_repeats pid place = (pid = 0x26 \<or> pid = 0x0B \<and> place = Some 3)"

definition mqtt_section :: "PacketType option \<Rightarrow> property list \<Rightarrow> bool" where
  "mqtt_section place ps =
     (list_all (\<lambda>(pid, v). mqtt_in pid place \<and> mqtt_value pid v) ps \<and>
      list_all (\<lambda>pid. mqtt_repeats pid place \<or> count_list (map fst ps) pid = 1) (map fst ps))"

subsection \<open>The code's tests agree with the tables\<close>

lemma DecodeVarint_vbi_dec:
  assumes "DecodeVarint b = Ok (m, k)"
  shows "vbi_dec (take k b) = Some (unat m, k)"
proof -
  obtain v where dec: "vbi_dec (take 4 b) = Some (v, k)" and m: "m = of_nat v"
    using assms by (auto simp: DecodeVarint_dec split: option.splits)
  have "k \<le> 4" using DecodeVarint_OkD(2) [OF assms] .
  have "v < 128 ^ 4"
    using vbi_dec_Some [OF dec] \<open>k \<le> 4\<close> by (elim conjE less_le_trans) (simp add: power_increasing del: power_numeral)
  then have "unat m = v" by (simp add: m unat_of_nat)
  with vbi_dec_take [OF dec, of k] \<open>k \<le> 4\<close> show ?thesis by (simp add: min_def)
qed

lemma varint_property:
  "wf_property (0x0B, v) \<and> (\<exists>n. n \<noteq> 0 \<and> DecodeVarint v = Ok (n, length v)) \<longleftrightarrow>
     length v \<le> 4 \<and> (\<exists>n. n \<noteq> 0 \<and> vbi_dec v = Some (n, length v))"
proof
  assume "wf_property (0x0B, v) \<and> (\<exists>n. n \<noteq> 0 \<and> DecodeVarint v = Ok (n, length v))"
  then obtain n where n: "n \<noteq> 0" "DecodeVarint v = Ok (n, length v)" by blast
  then have "vbi_dec v = Some (unat n, length v)" "length v \<le> 4" "unat n \<noteq> 0"
    using DecodeVarint_vbi_dec [OF n(2)] DecodeVarint_OkD(2) [OF n(2)] by (simp_all add: unat_eq_0)
  then show "length v \<le> 4 \<and> (\<exists>n. n \<noteq> 0 \<and> vbi_dec v = Some (n, length v))" by blast
next
  assume "length v \<le> 4 \<and> (\<exists>n. n \<noteq> 0 \<and> vbi_dec v = Some (n, length v))"
  then obtain n where n: "length v \<le> 4" "n \<noteq> 0" "vbi_dec v = Some (n, length v)" by blast
  then have dec: "DecodeVarint v = Ok (of_nat n, length v)" by (simp add: DecodeVarint_dec)
  then have "(of_nat n :: u32) \<noteq> 0" using DecodeVarint_vbi_dec [OF dec] n by (auto simp: unat_eq_0)
  then show "wf_property (0x0B, v) \<and> (\<exists>n. n \<noteq> 0 \<and> DecodeVarint v = Ok (n, length v))"
    using dec by (auto simp: wf_property_def propValueSize_of varint_size_def)
qed

lemma wf_str16:
  assumes "propValueSize pid = field_size" and "wf_property (pid, v)"
  shows "v = str16 (drop 2 v)" "length (drop 2 v) < 65536"
proof -
  have "field_size v = Ok (length v)" using assms by (simp add: wf_property_def)
  then obtain u where u: "2 \<le> length v" "Uint16 v = (Ok u :: u16 gores)" "length v = 2 + unat u"
    by (auto simp: field_size_def bindR_eq_Ok split: if_splits)
  then have "take 2 v = be16 u" using Uint16_OkD [OF u(2)] by simp
  moreover have "of_nat (length (drop 2 v)) = u" using u(3) by simp
  ultimately show "v = str16 (drop 2 v)" unfolding str16_def by (metis append_take_drop_id)
  show "length (drop 2 v) < 65536" using u(3) unat_less(2) [of u] by simp
qed

lemma drop_str16 [simp]: "drop 2 (str16 s) = s"
  by (simp add: str16_def)

lemma mqtt_in_ids:
  assumes "mqtt_in pid place"
  obtains (bool) "pid \<in> {0x01, 0x17, 0x19, 0x24, 0x25, 0x28, 0x29, 0x2A}" | (two) "pid \<in> {0x13, 0x21, 0x22, 0x23}"
    | (four) "pid \<in> {0x02, 0x11, 0x18, 0x27}" | (varint) "pid = 0x0B"
    | (field) "pid \<in> {0x03, 0x08, 0x12, 0x15, 0x1A, 0x1C, 0x1F, 0x09, 0x16}" | (pair) "pid = 0x26"
proof (rule ccontr)
  assume no: "\<not> thesis"
  have "pid \<notin> {0x01, 0x17, 0x19, 0x24, 0x25, 0x28, 0x29, 0x2A}" using no by (rule contrapos_nn) (rule bool)
  moreover have "pid \<notin> {0x13, 0x21, 0x22, 0x23}" using no by (rule contrapos_nn) (rule two)
  moreover have "pid \<notin> {0x02, 0x11, 0x18, 0x27}" using no by (rule contrapos_nn) (rule four)
  moreover have "pid \<noteq> 0x0B" using no by (rule contrapos_nn) (rule varint)
  moreover have "pid \<notin> {0x03, 0x08, 0x12, 0x15, 0x1A, 0x1C, 0x1F, 0x09, 0x16}" using no by (rule contrapos_nn) (rule field)
  moreover have "pid \<noteq> 0x26" using no by (rule contrapos_nn) (rule pair)
  ultimately show False using assms by (simp add: mqtt_in_def)
qed

text \<open>On the identifiers of the standard the two descriptions of a value agree.\<close>

lemma mqtt_value_iff:
  assumes "mqtt_in pid place"
  shows "mqtt_value pid v \<longleftrightarrow> wf_property (pid, v) \<and> value_ok t (pid, v)"
  using assms
proof (cases rule: mqtt_in_ids)
  case bool
  then have "wf_property (pid, v) \<longleftrightarrow> length v = 1" by (simp add: wf_property_def propValueSize_of(1) eq_commute del: insert_iff)
  moreover have "mqtt_value pid v \<longleftrightarrow> v = [0] \<or> v = [1]" "value_ok t (pid, v) \<longleftrightarrow> hd v \<le> 1"
    using bool by (simp_all add: mqtt_value_def value_ok_def del: insert_iff)
  moreover have "b \<le> 1 \<longleftrightarrow> b = 0 \<or> b = 1" for b :: byte
    by (simp add: word_le_nat_alt word_unat_eq_iff) linarith
  ultimately show ?thesis by (cases v) auto
next
  case two
  then have "wf_property (pid, v) \<longleftrightarrow> length v = 2" by (simp add: wf_property_def propValueSize_of(2) eq_commute del: insert_iff)
  then show ?thesis using two by (elim insertE emptyE) (simp_all add: mqtt_value_def value_ok_def)
next
  case four
  then have "wf_property (pid, v) \<longleftrightarrow> length v = 4" by (simp add: wf_property_def propValueSize_of(3) eq_commute del: insert_iff)
  then show ?thesis using four by (elim insertE emptyE) (simp_all add: mqtt_value_def value_ok_def)
next
  case varint
  then show ?thesis using varint_property [of v] by (simp add: mqtt_value_def value_ok_def)
next
  case field
  then have size: "propValueSize pid = field_size" by (rule propValueSize_of(5))
  have "wf_property (pid, v) \<longleftrightarrow> (\<exists>s. v = str16 s \<and> length s < 65536)"
  proof
    assume "wf_property (pid, v)"
    from wf_str16 [OF size this] show "\<exists>s. v = str16 s \<and> length s < 65536" by (intro exI [of _ "drop 2 v"] conjI)
  next
    assume "\<exists>s. v = str16 s \<and> length s < 65536"
    then show "wf_property (pid, v)" using wf_property_str16 [OF field] by (elim exE conjE) simp
  qed
  moreover define Q where "Q s \<longleftrightarrow> pid \<in> {0x09, 0x16} \<or> utf8_ok s \<and> (pid = 0x08 \<longrightarrow> 0x2B \<notin> set s \<and> 0x23 \<notin> set s)" for s
  have "mqtt_value pid v \<longleftrightarrow> (\<exists>s. v = str16 s \<and> length s < 65536 \<and> Q s)"
    using field by (elim insertE emptyE) (simp_all add: mqtt_value_def Q_def)
  moreover have "value_ok t (pid, v) \<longleftrightarrow> Q (drop 2 v)"
    using field by (elim insertE emptyE) (auto simp: value_ok_def Q_def ContainsWildcard_def list_ex_iff)
  ultimately show ?thesis by auto
next
  case pair
  then show ?thesis using wf_property_user by (auto simp: mqtt_value_def value_ok_def)
qed

lemma distinct_filter_count: "distinct (filter P xs) \<longleftrightarrow> (\<forall>x. P x \<longrightarrow> count_list xs x \<le> 1)"
proof (induction xs)
  case (Cons a xs)
  have "(\<forall>x. P x \<longrightarrow> count_list (a # xs) x \<le> 1) \<longleftrightarrow> (P a \<longrightarrow> a \<notin> set xs) \<and> (\<forall>x. P x \<longrightarrow> count_list xs x \<le> 1)"
    by (auto simp: count_list_0_iff le_Suc_eq split: if_splits)
  then show ?case unfolding Cons.IH [symmetric] by simp
qed simp

lemma count_list_1: "list_all (\<lambda>x. Q x \<or> count_list xs x = 1) xs \<longleftrightarrow> (\<forall>x. \<not> Q x \<longrightarrow> count_list xs x \<le> 1)"
proof -
  have "x \<in> set xs \<Longrightarrow> count_list xs x \<noteq> 0" "x \<notin> set xs \<Longrightarrow> count_list xs x = 0" for x by (simp_all add: count_list_0_iff)
  then have "(x \<in> set xs \<longrightarrow> Q x \<or> count_list xs x = 1) \<longleftrightarrow> (\<not> Q x \<longrightarrow> count_list xs x \<le> 1)" for x
    by (metis One_nat_def le_Suc_eq le_zero_eq le0)
  then show ?thesis unfolding list_all_iff by blast
qed

lemma mqtt_place:
  "bit (allowedProps t) (unat pid) \<longleftrightarrow> mqtt_in pid (Some t)"
  "bit willProps (unat pid) \<longleftrightarrow> mqtt_in pid None"
proof -
  show "bit willProps (unat pid) \<longleftrightarrow> mqtt_in pid None" unfolding willProps_def bit_propMask mqtt_in_def by auto
  consider "t = CONNECT" | "t = CONNACK" | "t = PUBLISH" | "t = PUBACK" | "t = PUBREC" | "t = PUBREL" | "t = PUBCOMP" | "t = SUBSCRIBE"
    | "t = SUBACK" | "t = UNSUBSCRIBE" | "t = UNSUBACK" | "t = DISCONNECT" | "t = AUTH"
    | "t \<notin> {CONNECT, CONNACK, PUBLISH, PUBACK, PUBREC, PUBREL, PUBCOMP, SUBSCRIBE, SUBACK, UNSUBSCRIBE, UNSUBACK, DISCONNECT, AUTH}"
    by auto
  then show "bit (allowedProps t) (unat pid) \<longleftrightarrow> mqtt_in pid (Some t)"
    by cases (auto simp: allowedProps_def publishProps_def reasonProps_def userProp_def bit_propMask mqtt_in_def simp del: propMask.simps)
qed

lemma section_valid:
  assumes "\<And>pid. bit allowed (unat pid) \<longleftrightarrow> mqtt_in pid place" and "\<And>pid. mqtt_in pid place \<Longrightarrow> multiProp t pid \<longleftrightarrow> mqtt_repeats pid place"
  shows "props_valid t allowed ps \<longleftrightarrow> mqtt_section place ps"
proof -
  have bits: "pid < 64" if "bit allowed (unat pid)" for pid :: byte
    using bit_imp_le_length [OF that] by (simp add: word_less_nat_alt)
  have "wf_properties ps \<and> list_all (allowed_prop allowed) ps \<and> list_all (value_ok t) ps \<longleftrightarrow>
      list_all (\<lambda>(pid, v). mqtt_in pid place \<and> mqtt_value pid v) ps"
    unfolding wf_properties_def list_all_iff allowed_prop_def
    using mqtt_value_iff [of _ place _ t] bits assms(1) by (auto simp: case_prod_beta)
  moreover have "distinct (single_props t ps) \<longleftrightarrow> list_all (\<lambda>pid. mqtt_repeats pid place \<or> count_list (map fst ps) pid = 1) (map fst ps)"
    if "list_all (\<lambda>(pid, v). mqtt_in pid place \<and> mqtt_value pid v) ps"
  proof -
    have "mqtt_in pid place" if "pid \<in> set (map fst ps)" for pid
      using that \<open>list_all _ ps\<close> by (auto simp: list_all_iff)
    then have "list_all (\<lambda>pid. mqtt_repeats pid place \<or> count_list (map fst ps) pid = 1) (map fst ps) \<longleftrightarrow>
        list_all (\<lambda>pid. multiProp t pid \<or> count_list (map fst ps) pid = 1) (map fst ps)"
      using assms(2) unfolding list_all_iff by blast
    then show ?thesis unfolding single_props_def distinct_filter_count count_list_1 by simp
  qed
  ultimately show ?thesis unfolding props_valid_def mqtt_section_def by blast
qed

lemma validateProps_section:
  "validateProps t bs (allowedProps t) = Ok () \<longleftrightarrow> (\<exists>ps. enc_props ps = bs \<and> mqtt_section (Some t) ps)"
  "validateProps CONNECT bs willProps = Ok () \<longleftrightarrow> (\<exists>ps. enc_props ps = bs \<and> mqtt_section None ps)"
proof -
  have "props_valid t (allowedProps t) ps \<longleftrightarrow> mqtt_section (Some t) ps" for ps
    by (rule section_valid [OF mqtt_place(1)]) (auto simp: multiProp_def mqtt_repeats_def)
  then show "validateProps t bs (allowedProps t) = Ok () \<longleftrightarrow> (\<exists>ps. enc_props ps = bs \<and> mqtt_section (Some t) ps)"
    by (simp add: validateProps_Ok)
  have "props_valid CONNECT willProps ps \<longleftrightarrow> mqtt_section None ps" for ps
    by (rule section_valid [OF mqtt_place(2)]) (auto simp: multiProp_def mqtt_repeats_def)
  then show "validateProps CONNECT bs willProps = Ok () \<longleftrightarrow> (\<exists>ps. enc_props ps = bs \<and> mqtt_section None ps)"
    by (simp add: validateProps_Ok)
qed

end
