(* ===== verification/Wire_Theorems.thy ===== *)
theory Wire_Theorems
  imports Publish_Relay Property_Spec
begin

text \<open>
  The properties of the packages under \<open>wire/\<close> taken together: what an encoder writes, the decoder
  reads back; the decoder returns on every input; what it accepts is well formed. Each property is
  followed by an instance on a concrete packet where it has hypotheses.
\<close>

subsection \<open>Examples\<close>

definition default_decoder :: Decoder where
  "default_decoder = \<lparr>maxPacket = 0, lenient = False\<rparr>"

definition example_publish :: PublishOpts where
  "example_publish =
     \<lparr>po_Topic = [0x61, CHAR_slash, 0x62], po_Payload = [1, 2, 3], po_QoS = 1, po_Retain = True, po_Dup = False,
      po_PacketID = 7, po_PayloadFormatIndicator = Some 1, po_MessageExpiryInterval = Some 60,
      po_ContentType = [0x74], po_ResponseTopic = [], po_CorrelationData = Some [], po_TopicAlias = 0,
      po_UserProperties = [\<lparr>Key = [0x6B], Value = [0x76]\<rparr>]\<rparr>"

definition example_will :: WillOpts where
  "example_will =
     \<lparr>wo_Topic = [0x77], wo_Payload = [9], wo_QoS = 1, wo_Retain = False, wo_WillDelayInterval = Some 5,
      wo_PayloadFormatIndicator = None, wo_MessageExpiryInterval = None, wo_ContentType = [],
      wo_ResponseTopic = [], wo_CorrelationData = None, wo_UserProperties = []\<rparr>"

definition example_connect :: ConnectOpts where
  "example_connect =
     \<lparr>co_ClientID = [0x63], co_CleanStart = True, co_KeepAlive = 30, co_Username = [0x75], co_Password = Some [1],
      co_Will = Some example_will, co_SessionExpiryInterval = Some 10, co_ReceiveMaximum = Some 5,
      co_MaximumPacketSize = None, co_TopicAliasMaximum = 0, co_RequestResponseInformation = None,
      co_RequestProblemInformation = Some 1, co_UserProperties = [], co_AuthenticationMethod = [],
      co_AuthenticationData = None\<rparr>"

definition example_subscribe :: SubscribeOpts where
  "example_subscribe =
     \<lparr>so_PacketID = 9,
      so_Filters = [\<lparr>sf_Topic = [0x61, CHAR_slash, CHAR_plus], sf_QoS = 2, sf_NoLocal = True,
                     sf_RetainAsPublished = False, sf_RetainHandling = 1\<rparr>],
      so_SubscriptionIdentifier = Some 200, so_UserProperties = []\<rparr>"

definition example_pubresp :: PubRespOpts where
  "example_pubresp = \<lparr>ro_PacketID = 5, ro_ReasonCode = 0x92, ro_ReasonString = [], ro_UserProperties = []\<rparr>"

lemmas example_defs = example_publish_def example_will_def example_connect_def example_subscribe_def
  example_pubresp_def default_decoder_def

lemmas example_valid = validatePublishOpts_Ok valid_publish_def validateConnectOpts_Ok valid_connect_def valid_will_def
  validateSubscribeOpts_Ok validatePubRespOpts_Ok ascii_utf8_ok ContainsWildcard_def wf_user_def nil_bytes_def reasonCodes_def
  valid_filter_def filter_levels_ok_def filter_text_ok_def shared_split_def IsSharedFilter_def HasPrefix_def
  CutPrefix_def share_prefix_def MaxVarintValue_def All_less_Suc

lemmas example_size = publish_remaining_def publish_varhdr_def publish_props_def connect_body_def connect_props_def
  will_bytes_def will_props_def subscribe_body_def subscribe_props_def filter_bytes_def pubresp_body_def pubresp_props_def
  reason_props_def prop_section_def prop_spec_defs vbi.simps ProtocolName_def

text \<open>
  C1. A PUBLISH whose options are valid and whose Remaining Length is within the protocol's limit is
  encoded to the same bytes by \<open>MarshalPublish\<close>, \<open>EncodePublish\<close> and \<open>WritePublish\<close>; reading
  them back from a stream consumes exactly those bytes, and \<open>Publish.Opts\<close> of the packet read gives
  the options again (the packet identifier of a QoS 0 PUBLISH is not sent).
\<close>

theorem publish_roundtrip:
  assumes "pool_ok pool" and "validatePublishOpts opts = Ok ()" and "publish_remaining opts < 268435456"
    and "maxPacket d = 0 \<or> length (publish_bytes opts) \<le> unat (maxPacket d)"
  shows "\<exists>frame p. MarshalPublish opts = Ok frame \<and> EncodePublish pool opts = Ok frame \<and>
    bindR (WritePublish pool opts) (\<lambda>bufs. Ok (concat bufs)) = Ok frame \<and>
    ReadPacket pool d (frame @ rest) = Some (Ok (PPublish p, rest), []) \<and>
    Publish_Opts p = opts\<lparr>po_PacketID := if po_QoS opts > 0 then po_PacketID opts else 0\<rparr>"
proof -
  have v: "valid_publish opts"
    using assms(2) by (simp add: validatePublishOpts_Ok)
  have frame: "frame_bytes PUBLISH (publishFlags opts) (publish_varhdr opts @ po_Payload opts) = publish_bytes opts"
    by (simp add: frame_bytes_def publish_bytes_def publish_header_def publish_remaining_def)
  have len: "length (publish_varhdr opts @ po_Payload opts) < 268435456"
    using assms(3) by (simp add: publish_remaining_def)
  have "ReadPacket pool d (publish_bytes opts @ rest) = Some (Ok (PPublish (publish_of opts), rest), [])"
    using publish_codec.ReadPacket_frame [OF assms(1) v len] assms(4) unfolding frame by blast
  then show ?thesis
    using MarshalPublish_eq [OF assms(3)] EncodePublish_eq [OF assms(3,1)] WritePublish_eq [OF assms(3)] assms(2)
      Publish_Opts_publish_of [OF v]
    by auto
qed

theorem publish_roundtrip_witness:
  "\<exists>frame p. MarshalPublish example_publish = Ok frame \<and> EncodePublish new_pool example_publish = Ok frame \<and>
    bindR (WritePublish new_pool example_publish) (\<lambda>bufs. Ok (concat bufs)) = Ok frame \<and>
    ReadPacket new_pool default_decoder (frame @ [0xC0, 0]) = Some (Ok (PPublish p, [0xC0, 0]), []) \<and>
    Publish_Opts p = example_publish"
proof -
  have "validatePublishOpts example_publish = Ok ()"
    by (simp add: example_defs example_valid)
  moreover have "publish_remaining example_publish < 268435456"
    by (simp add: example_defs example_size)
  ultimately show ?thesis
    using publish_roundtrip [of new_pool example_publish default_decoder "[0xC0, 0]"]
    by (simp add: pool_ok_new_pool example_defs)
qed

text \<open>
  C2. A CONNECT with valid options, with or without a Will, user name and password, is read back as
  the same connection request: every flag, the keep-alive, the properties, the Will and the
  credentials.
\<close>

theorem connect_roundtrip:
  assumes "pool_ok pool" and "validateConnectOpts opts = Ok ()" and "length (connect_body opts) < 268435456"
    and "maxPacket d = 0 \<or> 1 + length (vbi (length (connect_body opts))) + length (connect_body opts) \<le> unat (maxPacket d)"
  shows "\<exists>bufs. WriteConnect pool opts = Ok bufs \<and>
    ReadPacket pool d (concat bufs @ rest) = Some (Ok (PConnect (connect_of opts), rest), [])"
  using connect_codec.ReadPacket_frame [OF assms(1) _ assms(3)] WriteConnect_eq [OF assms(1,3)] assms(2,4)
  by (auto simp: validateConnectOpts_Ok frame_bytes_def)

theorem connect_roundtrip_witness:
  "\<exists>bufs. WriteConnect new_pool example_connect = Ok bufs \<and>
    ReadPacket new_pool default_decoder (concat bufs @ [0xC0, 0]) = Some (Ok (PConnect (connect_of example_connect), [0xC0, 0]), [])"
  by (rule connect_roundtrip) (simp_all add: pool_ok_new_pool example_defs example_valid example_size)

text \<open>
  C3. PUBACK, PUBREC, PUBREL and PUBCOMP with valid options are read back with their packet
  identifier, reason code and properties, and \<open>AppendPubResp\<close>, the allocation-free encoder of the
  acknowledgement path, appends exactly the bytes \<open>writePubResp\<close> writes for the same identifier and
  reason code.
\<close>

theorem pubresp_roundtrip:
  assumes "pool_ok pool" and "t \<in> {PUBACK, PUBREC, PUBREL, PUBCOMP}" and "validatePubRespOpts t opts = Ok ()"
    and "length (pubresp_body opts) < 268435456" and "maxPacket d = 0"
  shows "\<exists>bufs. writePubResp pool t (fixedFlags t) opts = Ok bufs \<and>
    ReadPacket pool d (concat bufs @ rest) = Some (Ok (pubresp_of (t, opts), rest), []) \<and>
    (ro_ReasonString opts = [] \<and> ro_UserProperties opts = [] \<longrightarrow>
      AppendPubResp dst t (ro_PacketID opts) (ro_ReasonCode opts) = dst @ concat bufs)"
proof -
  have v: "valid_pubresp (t, opts)"
    using assms(2,3) by (simp add: valid_pubresp_def)
  have "pubresp_body \<lparr>ro_PacketID = ro_PacketID opts, ro_ReasonCode = ro_ReasonCode opts, ro_ReasonString = [], ro_UserProperties = []\<rparr>
      = pubresp_body opts" if "ro_ReasonString opts = []" "ro_UserProperties opts = []"
    using that by (simp add: pubresp_body_def pubresp_props_def)
  then show ?thesis
    using pubresp_codec.ReadPacket_frame [OF assms(1) v] writePubResp_eq [OF assms(1,4), of t "fixedFlags t"]
      AppendPubResp_eq [OF assms(2), of dst "ro_PacketID opts" "ro_ReasonCode opts"] assms(3-5)
    by (auto simp: frame_bytes_def Let_def)
qed

theorem pubresp_roundtrip_witness:
  "\<exists>bufs. writePubResp new_pool PUBREL (fixedFlags PUBREL) example_pubresp = Ok bufs \<and>
    ReadPacket new_pool default_decoder (concat bufs @ [1]) = Some (Ok (pubresp_of (PUBREL, example_pubresp), [1]), []) \<and>
    (ro_ReasonString example_pubresp = [] \<and> ro_UserProperties example_pubresp = [] \<longrightarrow>
      AppendPubResp [7] PUBREL (ro_PacketID example_pubresp) (ro_ReasonCode example_pubresp) = [7] @ concat bufs)"
  by (rule pubresp_roundtrip) (simp_all add: pool_ok_new_pool example_defs example_valid example_size)

text \<open>
  C4. A SUBSCRIBE with valid options is read back with the same packet identifier and the same
  filters, QoS, No Local, Retain As Published and Retain Handling of every filter included, and its
  Subscription Identifier and user properties are found in the packet's properties.
\<close>

theorem subscribe_roundtrip:
  assumes "pool_ok pool" and "validateSubscribeOpts opts = Ok ()" and "length (subscribe_body opts) < 268435456"
    and "maxPacket d = 0"
  shows "\<exists>bufs p. WriteSubscribe pool opts = Ok bufs \<and>
    ReadPacket pool d (concat bufs @ rest) = Some (Ok (PSubscribe p, rest), []) \<and>
    sb_PacketID p = so_PacketID opts \<and> sb_Filters p = so_Filters opts \<and>
    SubscriptionIdentifiers (sb_Properties p) = (case so_SubscriptionIdentifier opts of None \<Rightarrow> [] | Some n \<Rightarrow> [n]) \<and>
    UserProperties (sb_Properties p) = so_UserProperties opts"
proof -
  let ?ps = "subscribe_props opts"
  have v: "list_all wf_user (so_UserProperties opts)"
      "\<And>n. so_SubscriptionIdentifier opts = Some n \<Longrightarrow> unat n < 268435456"
    using assms(2) by (auto simp: validateSubscribeOpts_Ok word_le_nat_alt MaxVarintValue_def)
  have wf: "wf_properties ?ps"
    using subscribe_props_valid [OF assms(2)] by (simp add: props_valid_def)
  have "SubscriptionIdentifiers_loop (enc_props ?ps) = (case so_SubscriptionIdentifier opts of None \<Rightarrow> [] | Some n \<Rightarrow> [n])"
    unfolding SubscriptionIdentifiers_enc [OF wf] using v(2) DecodeVarint_vbi [of _ "[]"]
    by (simp add: subscribe_props_def prop_spec_defs split: option.splits)
  moreover have "UserProperties (PropertiesFromBytes (enc_props ?ps)) = so_UserProperties opts"
    unfolding subscribe_props_def
    by (rule UserProperties_enc [OF wf_properties_pV _ v(1)]) (use v(2) in \<open>auto simp: list_all_props\<close>)
  ultimately show ?thesis
    using subscribe_codec.ReadPacket_frame [OF assms(1,2,3)] WriteSubscribe_eq [OF assms(1,3)] assms(2,4)
    by (auto simp: frame_bytes_def subscribe_of_def SubscriptionIdentifiers_def)
qed

theorem subscribe_roundtrip_witness:
  "\<exists>bufs p. WriteSubscribe new_pool example_subscribe = Ok bufs \<and>
    ReadPacket new_pool default_decoder (concat bufs @ []) = Some (Ok (PSubscribe p, []), []) \<and>
    sb_PacketID p = so_PacketID example_subscribe \<and> sb_Filters p = so_Filters example_subscribe \<and>
    SubscriptionIdentifiers (sb_Properties p) = (case so_SubscriptionIdentifier example_subscribe of None \<Rightarrow> [] | Some n \<Rightarrow> [n]) \<and>
    UserProperties (sb_Properties p) = so_UserProperties example_subscribe"
  by (rule subscribe_roundtrip) (simp_all add: pool_ok_new_pool example_defs example_valid example_size)

text \<open>
  C5. \<open>ReadPacket\<close> returns on every byte stream, in strict and in lenient mode and whatever the pooled
  buffers hold from earlier packets, and it never panics: no index or slice expression of the
  decoders, of the property walk or of the validation is out of range for any input.
\<close>

theorem ReadPacket_returns:
  assumes "pool_ok pool"
  shows "\<exists>out reports. ReadPacket pool d r = Some (out, reports) \<and> out \<noteq> Panic"
  by (rule ReadPacket_total [OF assms])

theorem ReadPacket_returns_witness:
  "\<exists>out reports. ReadPacket new_pool default_decoder [0x30, 0xFF, 0xFF] = Some (out, reports) \<and> out \<noteq> Panic"
  by (rule ReadPacket_returns [OF pool_ok_new_pool])

text \<open>
  C6. A packet \<open>ReadPacket\<close> accepts occupies a prefix of the stream, a fixed header and a body, and the
  rest of the stream is untouched. The header is canonical: its first byte carries the packet's type
  and, except for PUBLISH, the reserved flags MQTT demands (2 for PUBREL, SUBSCRIBE and UNSUBSCRIBE, 0
  otherwise); its length bytes are the length of the body in the shortest encoding; a PINGREQ or
  PINGRESP has no body; and the whole respects the configured maximum packet size. Lenient decoding lets
  through two violations only, each reported: reserved flags of a PINGRESP and a length that is not in
  the shortest encoding. The packet is what the body decodes to, and it has passed validation.
\<close>

theorem ReadPacket_accepts:
  assumes "pool_ok pool" and "ReadPacket pool d r = Some (Ok (p, rest), reports)"
  shows "\<exists>b0 len_bytes body. r = b0 # len_bytes @ body @ rest \<and> drop_bit 4 b0 = Packet_Type p \<and>
    vbi_dec len_bytes = Some (length body, length len_bytes) \<and> length len_bytes \<le> 4 \<and>
    (maxPacket d = 0 \<or> 1 + length len_bytes + length body \<le> unat (maxPacket d)) \<and>
    (Packet_Type p \<in> {0x0C, 0x0D} \<longrightarrow> body = []) \<and>
    (Packet_Type p \<noteq> 0x03 \<and> (Packet_Type p \<noteq> 0x0D \<or> reports = []) \<longrightarrow>
      b0 AND 0x0F = (if Packet_Type p \<in> {0x06, 0x08, 0x0A} then 0x02 else 0x00)) \<and>
    (lenient d \<or> reports = []) \<and> (reports = [] \<longrightarrow> len_bytes = vbi (length body)) \<and>
    decodeBody body (Packet_Type p) (if Packet_Type p = 0x0D \<and> reports \<noteq> [] then 0 else b0 AND 0x0F) = Ok p \<and>
    validatePacket p = Ok ()"
proof -
  from assms obtain b0 r' m k flags where r: "r = b0 # r'" and k: "DecodeVarint r' = Ok (m, k)"
    and len: "k + unat m \<le> length r'" "rest = drop (k + unat m) r'"
    and size: "maxPacket d = 0 \<or> 1 + k + unat m \<le> unat (maxPacket d)"
    and dec: "decodeBody (take (unat m) (drop k r')) (drop_bit 4 b0) flags = Ok p" and val: "validatePacket p = Ok ()"
    and strict: "reports = [] \<longrightarrow> flags = b0 AND 0x0F \<and> take k r' = vbi (unat m)" and lenient: "lenient d \<or> reports = []"
    and reported: "reports \<noteq> [] \<longrightarrow> flags = (if drop_bit 4 b0 = PINGRESP then 0 else b0 AND 0x0F)"
    and ping: "drop_bit 4 b0 = PINGREQ \<or> drop_bit 4 b0 = PINGRESP \<longrightarrow> m = 0"
    and reserved: "1 \<le> drop_bit 4 b0 \<longrightarrow> drop_bit 4 b0 \<noteq> PUBLISH \<longrightarrow> drop_bit 4 b0 \<noteq> PINGRESP \<or> reports = [] \<longrightarrow>
      b0 AND 0x0F = fixedFlags (drop_bit 4 b0)"
    by (rule ReadPacket_OkD)
  let ?body = "take (unat m) (drop k r')"
  have "drop_bit 4 b0 \<noteq> 0" using dec by (auto simp: decodeBody_def)
  then have t: "drop_bit 4 b0 = Packet_Type p" "1 \<le> Packet_Type p"
    using decodeBody_Type [OF dec] by (simp_all add: word_le_nat_alt Suc_le_eq unat_gt_0)
  have lens: "length ?body = unat m" "length (take k r') = k" using len(1) by simp_all
  have "r' = take k r' @ ?body @ rest" using len by (metis append_take_drop_id drop_drop add.commute)
  then have split: "r = b0 # take k r' @ ?body @ rest" using r by simp
  have dv: "vbi_dec (take k r') = Some (unat m, k)" "k \<le> 4" using DecodeVarint_vbi_dec [OF k] DecodeVarint_OkD(2) [OF k] by simp_all
  have f: "b0 AND 0x0F = (if Packet_Type p \<in> {0x06, 0x08, 0x0A} then 0x02 else 0x00)"
    if "Packet_Type p \<noteq> 0x03 \<and> (Packet_Type p \<noteq> 0x0D \<or> reports = [])"
    using reserved that t by (auto simp: fixedFlags_def)
  have fl: "flags = (if Packet_Type p = 0x0D \<and> reports \<noteq> [] then 0 else b0 AND 0x0F)" using strict reported t(1) by auto
  have body: "Packet_Type p \<in> {0x0C, 0x0D} \<Longrightarrow> ?body = []" using ping t(1) by auto
  show ?thesis
    using split dv size dec val strict lenient body
    apply -
    apply (rule exI [of _ b0])
    apply (rule exI [of _ "take k r'"])
    apply (rule exI [of _ ?body])
    apply (intro conjI impI; (rule f, assumption)?; simp only: fl lens t(1))
    done
qed

lemma ping_read: "ReadPacket new_pool default_decoder [0xC0, 0, 0x30] = Some (Ok (PPingreq, [0x30]), [])"
  using ping_codec.ReadPacket_frame [OF pool_ok_new_pool, where x = True and d = default_decoder and rest = "[0x30]"]
  by (simp add: frame_bytes_def default_decoder_def vbi.simps)

lemma ping_reported:
  "\<exists>report. ReadPacket new_pool (default_decoder\<lparr>lenient := True\<rparr>) [0xD5, 0, 0x30] = Some (Ok (PPingresp, [0x30]), [report])"
  by (simp add: ReadPacket_def default_decoder_def ReadVarint_dec checkHeader_def fixedFlags_def VarintSize_def Let_def
      readBody_eq [OF pool_ok_new_pool] finishPacket_def decodeBody_def )

theorem ReadPacket_accepts_witness:
  "(\<exists>b0 len_bytes body. [0xC0, 0, 0x30] = b0 # len_bytes @ body @ [0x30] \<and> b0 AND 0x0F = 0 \<and>
      len_bytes = vbi (length body) \<and> decodeBody body 0x0C 0 = Ok PPingreq) \<and>
    (\<exists>b0 len_bytes body. [0xD5, 0, 0x30] = b0 # len_bytes @ body @ [0x30] \<and> body = [] \<and> decodeBody body 0x0D 0 = Ok PPingresp)"
proof (rule conjI)
  show "\<exists>b0 len_bytes body. [0xC0, 0, 0x30] = b0 # len_bytes @ body @ [0x30] \<and> b0 AND 0x0F = 0 \<and>
      len_bytes = vbi (length body) \<and> decodeBody body 0x0C 0 = Ok PPingreq"
    using ReadPacket_accepts [OF pool_ok_new_pool ping_read] by (elim ex_forward) simp
  obtain report where "ReadPacket new_pool (default_decoder\<lparr>lenient := True\<rparr>) [0xD5, 0, 0x30] = Some (Ok (PPingresp, [0x30]), [report])"
    using ping_reported by blast
  from ReadPacket_accepts [OF pool_ok_new_pool this]
  show "\<exists>b0 len_bytes body. [0xD5, 0, 0x30] = b0 # len_bytes @ body @ [0x30] \<and> body = [] \<and> decodeBody body 0x0D 0 = Ok PPingresp"
    by (elim ex_forward) simp
qed

lemma ReadPacket_decoded:
  assumes "pool_ok pool" and "ReadPacket pool d r = Some (Ok (p, rest), reports)"
  shows "\<exists>bp flags. decodeBody bp (Packet_Type p) flags = Ok p \<and> validatePacket p = Ok ()"
proof -
  from assms obtain b0 r' m k flags where "r = b0 # r'" and "DecodeVarint r' = Ok (m, k)" and "k + unat m \<le> length r'"
    and "rest = drop (k + unat m) r'" and "maxPacket d = 0 \<or> 1 + k + unat m \<le> unat (maxPacket d)"
    and dec: "decodeBody (take (unat m) (drop k r')) (drop_bit 4 b0) flags = Ok p" and val: "validatePacket p = Ok ()"
    by (rule ReadPacket_OkD)
  with decodeBody_Type [OF dec] show ?thesis by auto
qed

text \<open>
  C7. A PUBLISH the decoder accepts can be relayed: the options \<open>Publish.Opts\<close> gives for it are
  valid for the encoders. In particular the topic is well-formed UTF-8 without wildcards, an empty
  topic comes with a Topic Alias that is not 0, the QoS is at most 2, a QoS above 0 comes with a
  packet identifier that is not 0, and DUP is clear at QoS 0.
\<close>

theorem accepted_publish_valid:
  assumes "pool_ok pool" and "ReadPacket pool d r = Some (Ok (PPublish p, rest), reports)"
  shows "validatePublishOpts (Publish_Opts p) = Ok ()"
proof -
  obtain bp flags where "decodeBody bp PUBLISH flags = Ok (PPublish p)" and val: "validatePacket (PPublish p) = Ok ()"
    using ReadPacket_decoded [OF assms] by auto
  then have "decodePublish bp flags = Ok p"
    by (simp add: decodeBody_def mapOk_def bindR_eq_Ok)
  from accepted_publish [OF this val] show ?thesis
    by (simp add: validatePublishOpts_Ok)
qed

lemma publish_read:
  "\<exists>frame. ReadPacket new_pool default_decoder frame = Some (Ok (PPublish (publish_of example_publish), []), [])"
proof -
  have "valid_publish example_publish" "length (publish_varhdr example_publish @ po_Payload example_publish) < 268435456"
    by (simp_all add: example_defs example_valid example_size)
  from publish_codec.ReadPacket_frame [OF pool_ok_new_pool this, of default_decoder "[]"] show ?thesis
    by (simp add: default_decoder_def) blast
qed

theorem accepted_publish_valid_witness: "validatePublishOpts (Publish_Opts (publish_of example_publish)) = Ok ()"
  using accepted_publish_valid [OF pool_ok_new_pool] publish_read by blast

text \<open>
  C8. The memory a peer can make \<open>readBody\<close> allocate is bounded by what it has sent: in every state
  of the loop the buffer is at most 64 KiB or at most eight times the bytes received, and never
  larger than the declared length.
\<close>

theorem readBody_memory:
  assumes "largeBodyChunk < n" and "body_reach n r0 (body, got, r)"
  shows "length body \<le> n \<and> got + length r = length r0 \<and> (length body \<le> 65536 \<or> length body \<le> 8 * got)"
  using body_reach_bound [OF assms(2,1)] by (auto simp: body_inv_def largeBodyChunk_def)

text \<open>A peer that declares a million bytes and has sent seventy thousand: after the first 64 KiB the buffer
  has grown to four times that size, for 65,536 bytes received.\<close>

theorem readBody_memory_witness:
  "\<exists>body. body_reach 1000000 (replicate 70000 1) (body, 65536, replicate 4464 1) \<and> length body = 262144 \<and>
    65536 + length (replicate 4464 (1 :: byte)) = length (replicate 70000 (1 :: byte)) \<and> length body \<le> 8 * 65536"
proof -
  let ?first = "replicate largeBodyChunk 0 :: byte list"
  have "readBody_step 1000000 (?first, 0, replicate 70000 1) =
      Inr (replicate 65536 1 @ replicate 196608 0, 65536, replicate 4464 1)"
    by (simp add: readBody_step_def ReadFull_def largeBodyChunk_def Let_def)
  with body_reach.start [of ?first 1000000 "replicate 70000 1"]
  have reach: "body_reach 1000000 (replicate 70000 1) (replicate 65536 1 @ replicate 196608 0, 65536, replicate 4464 1)"
    by (auto intro: body_reach.step)
  moreover have "largeBodyChunk < 1000000" by (simp add: largeBodyChunk_def)
  ultimately show ?thesis
    using readBody_memory [OF _ reach] by (intro exI [of _ "replicate 65536 1 @ replicate 196608 0"]) simp
qed

text \<open>
  C9. \<open>readBody\<close> returns, and with the whole body when the stream holds it: exactly \<open>n\<close> bytes,
  leaving the rest. A stream that ends inside the body is reported as \<open>io.ErrUnexpectedEOF\<close>, except
  that a body of at most 64 KiB of which not a single byte arrives is reported as \<open>io.EOF\<close>.
\<close>

theorem readBody_result:
  assumes "pool_ok pool"
  shows "readBody pool n r =
    Some (if n \<le> length r then Ok (take n r, drop n r)
          else if n \<le> largeBodyChunk \<and> r = [] then Err EOF else Err ErrUnexpectedEOF)"
  by (rule readBody_eq [OF assms])

theorem readBody_result_witness:
  "readBody new_pool 10 [] = Some (Err EOF) \<and> readBody new_pool 2 [1, 2, 3] = Some (Ok ([1, 2], [3]))"
  using readBody_result [OF pool_ok_new_pool, of 10 "[]"] readBody_result [OF pool_ok_new_pool, of 2 "[1, 2, 3]"]
  by (simp add: largeBodyChunk_def)

text \<open>
  C10. \<open>WithMessageExpiry\<close> on a frame the encoder made gives the frame the encoder makes for the same
  options with the new Message Expiry Interval, and leaves a frame without that property as it is:
  the in-place patch never touches another field, whatever the other properties and the payload hold.
\<close>

theorem WithMessageExpiry_reencodes:
  assumes "MarshalPublish opts = Ok frame" and "publish_remaining opts < 268435456"
  shows "WithMessageExpiry frame seconds =
    MarshalPublish (if po_MessageExpiryInterval opts = None then opts
                    else opts\<lparr>po_MessageExpiryInterval := Some seconds\<rparr>)"
proof -
  let ?opts = "if po_MessageExpiryInterval opts = None then opts else opts\<lparr>po_MessageExpiryInterval := Some seconds\<rparr>"
  have v: "valid_publish opts" and frame: "frame = publish_bytes opts"
    using assms by (auto simp: MarshalPublish_eq bindR_eq_Ok validatePublishOpts_Ok)
  then have "valid_publish ?opts"
    by (simp add: valid_publish_def)
  moreover have "publish_remaining ?opts = publish_remaining opts"
    by (auto simp: publish_remaining_def publish_varhdr_def publish_props_def p4_def)
  ultimately have "MarshalPublish ?opts = Ok (publish_bytes ?opts)"
    using assms(2) MarshalPublish_eq [of ?opts] unfolding validatePublishOpts_Ok [symmetric] by simp
  then show ?thesis
    using WithMessageExpiry_enc [OF v assms(2), of seconds] frame by simp
qed

theorem WithMessageExpiry_reencodes_witness:
  "\<exists>frame. MarshalPublish example_publish = Ok frame \<and>
    WithMessageExpiry frame 9 = MarshalPublish (example_publish\<lparr>po_MessageExpiryInterval := Some 9\<rparr>)"
proof -
  have r: "publish_remaining example_publish < 268435456"
    by (simp add: example_defs example_size)
  have "validatePublishOpts example_publish = Ok ()"
    by (simp add: example_defs example_valid)
  then have "MarshalPublish example_publish = Ok (publish_bytes example_publish)"
    by (simp add: MarshalPublish_eq [OF r])
  from this WithMessageExpiry_reencodes [OF this r, of 9] show ?thesis
    by (simp add: example_publish_def)
qed

text \<open>
  C11. A PUBLISH with valid options and less than 256 MiB of properties that is too large for a Remaining
  Length is refused with \<open>ErrVarintTooLarge\<close> when its length fits 32 bits. Above that the conversion \<open>uint32(l.remaining)\<close> wraps: when the wrapped
  value is small enough, \<open>MarshalPublish\<close> succeeds with a frame whose Remaining Length is the true
  length modulo \<open>2 ^ 32\<close>.
\<close>

theorem MarshalPublish_length:
  assumes "validatePublishOpts opts = Ok ()" and "length (enc_props (publish_props opts)) < 268435456"
    and "268435456 \<le> publish_remaining opts"
  shows "(publish_remaining opts < 4294967296 \<longrightarrow> MarshalPublish opts = Err ErrVarintTooLarge) \<and>
    (publish_remaining opts mod 4294967296 < 268435456 \<longrightarrow>
      MarshalPublish opts =
        Ok ((push_bit 4 PUBLISH OR publishFlags opts) # vbi (publish_remaining opts mod 4294967296) @
            publish_varhdr opts @ po_Payload opts))"
  using MarshalPublish_too_large MarshalPublish_wraps assms by (auto simp: validatePublishOpts_Ok)

definition huge_publish :: "nat \<Rightarrow> PublishOpts" where
  "huge_publish n = example_publish\<lparr>po_Payload := replicate n 0\<rparr>"

theorem MarshalPublish_length_witness:
  "MarshalPublish (huge_publish 268435456) = Err ErrVarintTooLarge \<and>
   MarshalPublish (huge_publish 4294967296) =
     Ok ((push_bit 4 PUBLISH OR publishFlags (huge_publish 4294967296)) #
         vbi (publish_remaining (huge_publish 4294967296) mod 4294967296) @
         publish_varhdr (huge_publish 4294967296) @ po_Payload (huge_publish 4294967296))"
proof -
  have v: "validatePublishOpts (huge_publish n) = Ok ()" for n
    by (simp add: huge_publish_def example_defs example_valid)
  have p: "length (enc_props (publish_props (huge_publish n))) < 268435456"
    and r: "publish_remaining (huge_publish n) = 29 + n" for n
    by (simp_all add: huge_publish_def example_defs example_size)
  show ?thesis
    using MarshalPublish_length [OF v p, of 268435456] MarshalPublish_length [OF v p, of 4294967296]
    by (simp add: r)
qed


text \<open>
  C13. The eight-bytes-at-a-time screens do not change the answer: \<open>validUTF8Bytes\<close> is well-formed
  UTF-8 without NUL, and \<open>scanTopicName\<close> answers the same and, on valid names, whether a wildcard
  occurs.
\<close>

theorem utf8_screens:
  "validUTF8Bytes b = (utf8_Valid b \<and> 0 \<notin> set b) \<and> fst (scanTopicName b) = validUTF8Bytes b \<and>
    (validUTF8Bytes b \<longrightarrow> snd (scanTopicName b) = (CHAR_plus \<in> set b \<or> CHAR_hash \<in> set b))"
  using scanTopicName_eq [of b]
  by (auto simp: validUTF8Bytes_eq validUTF8_eq utf8_ok_def ContainsWildcard_def list_ex_iff)

theorem utf8_screens_witness: "snd (scanTopicName [0x61, CHAR_slash, CHAR_plus])"
proof -
  have "validUTF8Bytes [0x61, CHAR_slash, CHAR_plus]"
    by (simp add: validUTF8Bytes_eq ascii_utf8_ok)
  then show ?thesis
    using utf8_screens [of "[0x61, CHAR_slash, CHAR_plus]"] by simp
qed

text \<open>
  C14. \<open>ValidTopicFilter\<close> accepts exactly the filters of at most 65,535 bytes of well-formed UTF-8 in
  which a multi-level wildcard is alone in the last level and a single-level wildcard is alone in its
  level, and, for a shared subscription, \<open>$share/name/\<close> with a non-empty name without wildcards in
  front of such a filter. Every other string is an error, never a panic.
\<close>

theorem ValidTopicFilter_spec:
  "ValidTopicFilter flt = (if valid_filter flt then Ok ()
     else if length flt > 65535 then Err (Errorf [ErrStringTooLong]) else Err (Errorf [ErrInvalidTopic]))"
proof (cases "length flt > 65535")
  case True
  then have "ValidTopicFilter flt = Err (Errorf [ErrStringTooLong])"
    by (auto simp: ValidTopicFilter_def)
  with True show ?thesis by (simp add: valid_filter_def)
next
  case False
  then show ?thesis
    using ValidTopicFilter_Ok [of flt] ValidTopicFilter_error [of flt] by (cases "ValidTopicFilter flt") auto
qed

text \<open>
  C15. When \<open>Ready\<close> reports a complete packet, \<open>ReadPacket\<close> decides on the buffered bytes alone and
  does not wait for the stream: with anything behind the buffered bytes it returns the same packet,
  or the same error, and leaves what it did not consume in front of it.
\<close>

theorem Ready_packet:
  assumes "pool_ok pool" and "Ready b = Ok True"
  shows "ReadPacket pool d (b @ later) =
    (case ReadPacket pool d b of
       Some (Ok (p, rest), reports) \<Rightarrow> Some (Ok (p, rest @ later), reports)
     | out \<Rightarrow> out)"
proof -
  obtain b0 r where b: "b = b0 # r"
    using assms(2) by (cases b) (auto simp: Ready_def)
  have hdr: "take (min (length r) maxVarintBytes) r = take 4 r"
    by (simp add: maxVarintBytes_def min_def)
  obtain m k where take4: "DecodeVarint (take 4 r) = Ok (m, k)" and len: "k + unat m \<le> length r"
    using assms(2) unfolding Ready_def Let_def
    by (auto simp: b hdr slice_from_def split: if_splits res.splits prod.splits)
  have dec: "DecodeVarint r = Ok (m, k)"
    using DecodeVarint_append [OF take4, of "drop 4 r"] DecodeVarint_OkD(3) [OF take4] by simp
  have rv: "ReadVarint r = Ok (m, k, drop k r)" "ReadVarint (r @ later) = Ok (m, k, drop k r @ later)"
    using dec DecodeVarint_append [OF dec, of later] len by (simp_all add: ReadVarint_DecodeVarint)
  have body: "readBody pool (unat m) (drop k r @ x) = Some (Ok (take (unat m) (drop k r), drop (unat m) (drop k r) @ x))" for x
    using len by (simp add: readBody_eq [OF assms(1)]) linarith
  have fin: "finishPacket t f (Ok (x, y @ later)) = (case finishPacket t f (Ok (x, y)) of Ok (p, r) \<Rightarrow> Ok (p, r @ later) | e \<Rightarrow> e)" for t f x y
  proof (cases "decodeBody x t f")
    case (Ok p)
    then show ?thesis by (cases "validatePacket p") (simp_all add: finishPacket_def)
  qed (simp_all add: finishPacket_def)
  define t f where "t = drop_bit 4 b0" and "f = b0 AND 0x0F"
  obtain perr tol where chk: "checkHeader t f m (k = VarintSize m) = (perr, tol)"
    by (cases "checkHeader t f m (k = VarintSize m)")
  let ?f' = "case perr of None \<Rightarrow> f | Some _ \<Rightarrow> if t = PINGRESP then 0 else f"
  let ?o = "finishPacket t ?f' (Ok (take (unat m) (drop k r), drop (unat m) (drop k r)))"
  note body = body [of "[]", simplified] body [of later]
  show ?thesis
    unfolding b append_Cons ReadPacket_def list.case Let_def t_def [symmetric] f_def [symmetric] rv res.case prod.case chk
    by (cases perr; cases ?o) (auto simp: body fin)
qed

theorem Ready_packet_witness:
  "ReadPacket new_pool default_decoder ([0xC0, 0, 0x30] @ [7, 7]) = Some (Ok (PPingreq, [0x30, 7, 7]), [])"
proof -
  have "Ready [0xC0, 0, 0x30] = Ok True"
    by (simp add: Ready_def slice_from_def maxVarintBytes_def DecodeVarint_def DecodeVarint_loop.simps Let_def)
  from Ready_packet [OF pool_ok_new_pool this, of default_decoder "[7, 7]"] show ?thesis
    by (simp add: ping_read)
qed

end
