(* ===== verification/Topic_Trie.thy ===== *)
theory Topic_Trie
  imports Topics "HOL-Library.AList" "HOL-Library.Multiset"
begin

text \<open>
  The topic filter trie (\<open>internal/trie/trie.go\<close>), which dispatches inbound PUBLISH packets. A node
  is a value; a function of the source that changes a node reached through pointers is a function
  that returns the new root. \<open>Match\<close> returns the handlers in the order in which it yields them.
  The mutex is not modelled: every operation holds it for its whole body.
\<close>

subsection \<open>Nodes\<close>

datatype 'h entry = entry (eid: u64) (ehandler: 'h)

datatype 'h Node = Node
  (children: "(byte list \<times> 'h Node) list")
  (plusChild: "'h Node option")
  (hashChild: "'h Node option")
  (handlers: "'h entry list")

record 'h Tree =
  root :: "'h Node"
  nextID :: u64

abbreviation new_node :: "'h Node" where
  "new_node \<equiv> Node [] None None []"

abbreviation (input) PLUS :: "byte list" where "PLUS \<equiv> [CHAR_plus]"
abbreviation (input) HASH :: "byte list" where "HASH \<equiv> [CHAR_hash]"

definition node_empty :: "'h Node \<Rightarrow> bool" where
  "node_empty n = (length (children n) = 0 \<and> plusChild n = None \<and> hashChild n = None \<and> length (handlers n) = 0)"

definition NewTree :: "'h Tree" where
  "NewTree = \<lparr>root = new_node, nextID = 0\<rparr>"

subsection \<open>Register\<close>

definition splitLevels :: "gostring \<Rightarrow> byte list list" where
  "splitLevels s = Split CHAR_slash s"

definition or_new :: "'h Node option \<Rightarrow> 'h Node" where
  "or_new c = (case c of None \<Rightarrow> new_node | Some n \<Rightarrow> n)"

text \<open>\<open>ensure\<close> walks or creates the nodes of a filter; \<open>f\<close> is what the caller does to the leaf node.\<close>

fun ensure :: "('h Node \<Rightarrow> 'h Node) \<Rightarrow> byte list list \<Rightarrow> 'h Node \<Rightarrow> 'h Node" where
  "ensure f [] n = f n"
| "ensure f (level # levels) (Node ch pc hc hs) =
     (if level = PLUS then Node ch (Some (ensure f levels (or_new pc))) hc hs
      else if level = HASH then Node ch pc (Some (f (or_new hc))) hs
      else Node (AList.update level (ensure f levels (or_new (map_of ch level))) ch) pc hc hs)"

definition add_handler :: "'h entry \<Rightarrow> 'h Node \<Rightarrow> 'h Node" where
  "add_handler e n = Node (children n) (plusChild n) (hashChild n) (handlers n @ [e])"

definition Register :: "'h Tree \<Rightarrow> gostring \<Rightarrow> 'h \<Rightarrow> 'h Tree \<times> u64" where
  "Register t flt h =
     (let rid = nextID t + 1
      in (\<lparr>root = ensure (add_handler (entry rid h)) (splitLevels flt) (root t), nextID = rid\<rparr>, rid))"

subsection \<open>Unregister\<close>

type_synonym 'h step = "byte list \<times> 'h Node"

definition child :: "'h Node \<Rightarrow> byte list \<Rightarrow> 'h Node option" where
  "child n level =
     (if level = PLUS then plusChild n else if level = HASH then hashChild n else map_of (children n) level)"

fun path_from :: "byte list list \<Rightarrow> 'h Node \<Rightarrow> 'h step list option" where
  "path_from [] n = Some []"
| "path_from (level # levels) n =
     (case child n level of
        None \<Rightarrow> None
      | Some c \<Rightarrow> if level = HASH then Some [(level, c)] else map_option (Cons (level, c)) (path_from levels c))"

definition path :: "'h Tree \<Rightarrow> gostring \<Rightarrow> 'h step list option" where
  "path t flt = map_option (Cons ([], root t)) (path_from (splitLevels flt) (root t))"

definition unset_child :: "byte list \<Rightarrow> 'h Node \<Rightarrow> 'h Node" where
  "unset_child level n =
     (if level = PLUS then Node (children n) None (hashChild n) (handlers n)
      else if level = HASH then Node (children n) (plusChild n) None (handlers n)
      else Node (AList.delete level (children n)) (plusChild n) (hashChild n) (handlers n))"

text \<open>The parent after a change of the node it points to.\<close>

definition set_child :: "byte list \<Rightarrow> 'h Node \<Rightarrow> 'h Node \<Rightarrow> 'h Node" where
  "set_child level c n =
     (if level = PLUS then Node (children n) (Some c) (hashChild n) (handlers n)
      else if level = HASH then Node (children n) (plusChild n) (Some c) (handlers n)
      else Node (AList.update level c (children n)) (plusChild n) (hashChild n) (handlers n))"

text \<open>
  The loop that removes empty nodes bottom-up, on the reversed path; \<open>n\<close> is the new value of the
  path's deepest node. The result is the new root.
\<close>

fun prune_up :: "'h step list \<Rightarrow> 'h Node \<Rightarrow> 'h Node" where
  "prune_up ((level, _) # (plevel, parent) # p) n =
     prune_up ((plevel, parent) # p) (if node_empty n then unset_child level parent else set_child level n parent)"
| "prune_up _ n = n"

fun remove_id :: "u64 \<Rightarrow> 'h entry list \<Rightarrow> 'h entry list option" where
  "remove_id rid [] = None"
| "remove_id rid (e # es) = (if eid e = rid then Some es else map_option (Cons e) (remove_id rid es))"

definition Unregister :: "'h Tree \<Rightarrow> gostring \<Rightarrow> u64 \<Rightarrow> 'h Tree \<times> bool" where
  "Unregister t flt rid =
     (case path t flt of
        None \<Rightarrow> (t, False)
      | Some p \<Rightarrow>
          let leaf = snd (last p) in
          case remove_id rid (handlers leaf) of
            None \<Rightarrow> (t, False)
          | Some hs \<Rightarrow>
              (t\<lparr>root := prune_up (rev p) (Node (children leaf) (plusChild leaf) (hashChild leaf) hs)\<rparr>, True))"

definition Reset :: "'h Tree \<Rightarrow> 'h Tree" where
  "Reset t = t\<lparr>root := new_node\<rparr>"

subsection \<open>Match\<close>

text \<open>\<open>strings.IndexByte\<close>; the source's \<open>-1\<close> is \<open>None\<close>.\<close>

definition IndexByte :: "byte list \<Rightarrow> byte \<Rightarrow> nat option" where
  "IndexByte s c = (if c \<in> set s then Some (length (takeWhile (\<lambda>x. x \<noteq> c) s)) else None)"

definition next_level :: "gostring \<Rightarrow> nat \<Rightarrow> byte list \<times> nat" where
  "next_level topic start =
     (case IndexByte (drop start topic) CHAR_slash of
        None \<Rightarrow> (drop start topic, length topic + 1)
      | Some rel \<Rightarrow> (take rel (drop start topic), start + rel + 1))"

lemma map_of_size: "map_of ch k = Some (n :: 'h Node) \<Longrightarrow> size n < size_list (size_prod (\<lambda>_. 0) size) ch"
  by (induction ch) (auto split: if_splits)

function matchLevels :: "'h Node \<Rightarrow> gostring \<Rightarrow> nat \<Rightarrow> 'h list" where
  "matchLevels (Node ch pc hc hs) topic start =
     (case hc of None \<Rightarrow> [] | Some h \<Rightarrow> map ehandler (handlers h)) @
     (if start > length topic then map ehandler hs
      else let (level, nxt) = next_level topic start
           in (case pc of None \<Rightarrow> [] | Some c \<Rightarrow> matchLevels c topic nxt) @
              (case map_of ch level of None \<Rightarrow> [] | Some c \<Rightarrow> matchLevels c topic nxt))"
  by pat_completeness auto
termination
  by (relation "measure (\<lambda>(n, _, _). size n)") (auto dest: map_of_size)

definition matchDollar :: "'h Node \<Rightarrow> gostring \<Rightarrow> 'h list" where
  "matchDollar n topic =
     (let (level, nxt) = (case IndexByte topic CHAR_slash of
                            None \<Rightarrow> (topic, length topic + 1)
                          | Some i \<Rightarrow> (take i topic, i + 1))
      in case map_of (children n) level of None \<Rightarrow> [] | Some c \<Rightarrow> matchLevels c topic nxt)"

definition Match :: "'h Tree \<Rightarrow> gostring \<Rightarrow> 'h list" where
  "Match t topic =
     (if HasPrefix topic [CHAR_dollar] then matchDollar (root t) topic else matchLevels (root t) topic 0)"

fun countNodes :: "'h Node \<Rightarrow> nat" where
  "countNodes (Node ch pc hc hs) =
     1 + (case pc of None \<Rightarrow> 0 | Some c \<Rightarrow> countNodes c) + (case hc of None \<Rightarrow> 0 | Some c \<Rightarrow> countNodes c) +
     sum_list (map (\<lambda>(_, c). countNodes c) ch)"

definition Nodes :: "'h Tree \<Rightarrow> nat" where
  "Nodes t = countNodes (root t)"

subsection \<open>Specification\<close>

text \<open>What is registered below a node: the levels that lead to it, and the entry.\<close>

type_synonym 'h regs = "(byte list list \<times> 'h entry) multiset"

definition under :: "byte list \<Rightarrow> 'h regs \<Rightarrow> 'h regs" where
  "under level = image_mset (apfst (Cons level))"

fun regs_of :: "'h Node \<Rightarrow> 'h regs" where
  "regs_of (Node ch pc hc hs) =
     mset (map (Pair []) hs) +
     (case pc of None \<Rightarrow> {#} | Some c \<Rightarrow> under PLUS (regs_of c)) +
     (case hc of None \<Rightarrow> {#} | Some c \<Rightarrow> under HASH (regs_of c)) +
     sum_list (map (\<lambda>(level, c). under level (regs_of c)) ch)"

definition registered :: "'h Tree \<Rightarrow> 'h regs" where
  "registered t = regs_of (root t)"

text \<open>Levels after a multi-level wildcard are ignored.\<close>

fun filter_key :: "byte list list \<Rightarrow> byte list list" where
  "filter_key [] = []"
| "filter_key (level # levels) = (if level = HASH then [HASH] else level # filter_key levels)"

text \<open>Section 4.7 of the standard: a filter's levels against a topic's levels.\<close>

fun levels_match :: "byte list list \<Rightarrow> byte list list \<Rightarrow> bool" where
  "levels_match [] ts = (ts = [])"
| "levels_match (f # fs) ts =
     (if f = HASH then True
      else case ts of [] \<Rightarrow> False | t # ts \<Rightarrow> (f = PLUS \<or> f = t) \<and> levels_match fs ts)"

definition filter_matches :: "byte list list \<Rightarrow> gostring \<Rightarrow> bool" where
  "filter_matches fs topic =
     (levels_match fs (splitLevels topic) \<and>
      (HasPrefix topic [CHAR_dollar] \<longrightarrow> fs \<noteq> [] \<and> hd fs \<noteq> PLUS \<and> hd fs \<noteq> HASH))"

text \<open>Well-formed nodes: keys are unique and literal, no node but the root is empty, and a
  multi-level wildcard has nothing below it.\<close>

definition hash_leaf :: "'h Node \<Rightarrow> bool" where
  "hash_leaf n = (children n = [] \<and> plusChild n = None \<and> hashChild n = None \<and> handlers n \<noteq> [])"

fun wf_node :: "'h Node \<Rightarrow> bool" where
  "wf_node (Node ch pc hc hs) =
     (distinct (map fst ch) \<and>
      (\<forall>(level, c) \<in> set ch. level \<noteq> PLUS \<and> level \<noteq> HASH \<and> wf_node c \<and> \<not> node_empty c) \<and>
      (case pc of None \<Rightarrow> True | Some c \<Rightarrow> wf_node c \<and> \<not> node_empty c) \<and>
      (case hc of None \<Rightarrow> True | Some c \<Rightarrow> hash_leaf c))"

subsection \<open>Lemmas: Match\<close>

definition levels_from :: "gostring \<Rightarrow> nat \<Rightarrow> byte list list" where
  "levels_from topic start = (if start > length topic then [] else splitLevels (drop start topic))"

lemma Split_Index:
  "Split sep s =
    (case IndexByte s sep of None \<Rightarrow> [s] | Some i \<Rightarrow> take i s # Split sep (drop (i + 1) s))"
proof (induction s)
  case (Cons c s)
  then show ?case
    by (cases "IndexByte s sep") (auto simp: IndexByte_def split: if_splits)
qed (simp add: IndexByte_def)

lemma IndexByte_less: "IndexByte s c = Some i \<Longrightarrow> i < length s"
  by (induction s arbitrary: i) (auto simp: IndexByte_def split: if_splits)

lemma levels_from_next:
  assumes "start \<le> length topic"
  shows "levels_from topic start = fst (next_level topic start) # levels_from topic (snd (next_level topic start))"
  using assms IndexByte_less [of "drop start topic" CHAR_slash]
  by (auto simp: levels_from_def next_level_def splitLevels_def Split_Index [of _ "drop start topic"] add.commute
      split: option.splits)

lemma sum_map_of:
  "distinct (map fst ch) \<Longrightarrow>
    sum_list (map (\<lambda>(l, c). if l = k then g c else 0) ch) =
    (case map_of ch k of None \<Rightarrow> (0 :: 'a :: comm_monoid_add) | Some c \<Rightarrow> g c)"
proof (induction ch)
  case (Cons p ch)
  obtain l c where p: "p = (l, c)" by (cases p)
  show ?case
  proof (cases "l = k")
    case True
    then have "map_of ch k = None"
      using Cons.prems by (simp add: p map_of_eq_None_iff)
    with Cons True show ?thesis by (simp add: p)
  qed (use Cons in \<open>simp add: p\<close>)
qed simp

lemma sum_list_zero: "(\<And>x. x \<in> set xs \<Longrightarrow> x = 0) \<Longrightarrow> sum_list xs = (0 :: 'a :: monoid_add)"
  by (induction xs) simp_all

definition hits :: "byte list list \<Rightarrow> 'h regs \<Rightarrow> 'h multiset" where
  "hits ts M = image_mset (\<lambda>(_, e). ehandler e) (filter_mset (\<lambda>(fs, _). levels_match fs ts) M)"

lemma hits_simps [simp]:
  "hits ts {#} = {#}"
  "hits ts (M + N) = hits ts M + hits ts N"
  "hits ts (add_mset (fs, e) M) = (if levels_match fs ts then add_mset (ehandler e) (hits ts M) else hits ts M)"
  by (simp_all add: hits_def)

lemma under_simps [simp]:
  "under level {#} = {#}"
  "under level (M + N) = under level M + under level N"
  "under level (add_mset (fs, e) M) = add_mset (level # fs, e) (under level M)"
  by (simp_all add: under_def)

lemma hits_sum_list: "hits ts (sum_list Ms) = sum_list (map (hits ts) Ms)"
  by (induction Ms) simp_all

lemma hits_here: "hits ts (image_mset (Pair []) M) = (if ts = [] then image_mset ehandler M else {#})"
  by (induction M) auto

lemma hits_under:
  "hits ts (under HASH M) = image_mset (\<lambda>(_, e). ehandler e) M"
  "level \<noteq> HASH \<Longrightarrow> hits [] (under level M) = {#}"
  "level \<noteq> HASH \<Longrightarrow> hits (t # ts) (under level M) = (if level = PLUS \<or> level = t then hits ts M else {#})"
proof -
  show "hits ts (under HASH M) = image_mset (\<lambda>(_, e). ehandler e) M"
    by (induction M) (simp, case_tac x, simp)
  show "hits [] (under level M) = {#}" if "level \<noteq> HASH"
    using that by (induction M) (simp, case_tac x, simp)
  show "hits (t # ts) (under level M) = (if level = PLUS \<or> level = t then hits ts M else {#})" if "level \<noteq> HASH"
    using that by (induction M) (simp, case_tac x, auto)
qed

lemma regs_hash_leaf: "hash_leaf n \<Longrightarrow> regs_of n = mset (map (Pair []) (handlers n))"
  by (cases n) (simp add: hash_leaf_def)

lemma matchLevels_hits:
  "wf_node n \<Longrightarrow> mset (matchLevels n topic start) = hits (levels_from topic start) (regs_of n)"
proof (induction n topic start rule: matchLevels.induct)
  case (1 ch pc hc hs topic start)
  let ?ts = "levels_from topic start"
  have hash: "mset (case hc of None \<Rightarrow> [] | Some h \<Rightarrow> map ehandler (handlers h)) =
      hits ?ts (case hc of None \<Rightarrow> {#} | Some c \<Rightarrow> under HASH (regs_of c))"
    using "1.prems" by (auto simp: hits_under regs_hash_leaf multiset.map_comp comp_def split: option.splits)
  have wf: "distinct (map fst ch)" "\<And>l c. (l, c) \<in> set ch \<Longrightarrow> l \<noteq> PLUS \<and> l \<noteq> HASH \<and> wf_node c"
    using "1.prems" by auto
  show ?case
  proof (cases "start > length topic")
    case True
    then have ts: "?ts = []" by (simp add: levels_from_def)
    have "hits [] (sum_list (map (\<lambda>(l, c). under l (regs_of c)) ch)) = {#}"
      unfolding hits_sum_list by (rule sum_list_zero) (use wf(2) in \<open>auto simp: hits_under\<close>)
    moreover have "hits [] (case pc of None \<Rightarrow> {#} | Some c \<Rightarrow> under PLUS (regs_of c)) = {#}"
      by (simp add: hits_under split: option.splits)
    ultimately show ?thesis
      using True hash by (simp add: ts hits_here)
  next
    case False
    obtain level nxt where nl: "next_level topic start = (level, nxt)" by fastforce
    have ts: "?ts = level # levels_from topic nxt"
      using levels_from_next [of start topic] False nl by simp
    have "hits ?ts (sum_list (map (\<lambda>(l, c). under l (regs_of c)) ch)) =
        sum_list (map (\<lambda>(l, c). if l = level then hits (levels_from topic nxt) (regs_of c) else 0) ch)"
      unfolding hits_sum_list map_map ts using wf(2) by (intro arg_cong [where f = sum_list] map_cong) (auto simp: hits_under)
    also have "\<dots> = (case map_of ch level of None \<Rightarrow> 0 | Some c \<Rightarrow> hits (levels_from topic nxt) (regs_of c))"
      by (rule sum_map_of [OF wf(1)])
    also have "\<dots> = mset (case map_of ch level of None \<Rightarrow> [] | Some c \<Rightarrow> matchLevels c topic nxt)"
      using "1.IH"(2) [OF False nl [symmetric] refl] wf(2) map_of_SomeD by (fastforce split: option.splits)
    finally have kids: "hits ?ts (sum_list (map (\<lambda>(l, c). under l (regs_of c)) ch)) =
        mset (case map_of ch level of None \<Rightarrow> [] | Some c \<Rightarrow> matchLevels c topic nxt)" .
    have plus: "mset (case pc of None \<Rightarrow> [] | Some c \<Rightarrow> matchLevels c topic nxt) =
        hits ?ts (case pc of None \<Rightarrow> {#} | Some c \<Rightarrow> under PLUS (regs_of c))"
      using "1.IH"(1) [OF False nl [symmetric] refl] "1.prems" by (auto simp: ts hits_under split: option.splits)
    show ?thesis
      using False hash plus kids by (simp add: nl ts hits_here)
  qed
qed

definition matched :: "gostring \<Rightarrow> 'h regs \<Rightarrow> 'h multiset" where
  "matched topic M = image_mset (\<lambda>(_, e). ehandler e) (filter_mset (\<lambda>(fs, _). filter_matches fs topic) M)"

lemma matched_simps [simp]:
  "matched topic {#} = {#}"
  "matched topic (M + N) = matched topic M + matched topic N"
  "matched topic (add_mset (fs, e) M) =
     (if filter_matches fs topic then add_mset (ehandler e) (matched topic M) else matched topic M)"
  by (simp_all add: matched_def)

lemma matched_sum_list: "matched topic (sum_list Ms) = sum_list (map (matched topic) Ms)"
  by (induction Ms) simp_all

lemma matched_dollar:
  assumes "HasPrefix topic [CHAR_dollar]" and "splitLevels topic = level # rest"
  shows "matched topic (image_mset (Pair []) es) = {#}"
    and "matched topic (under PLUS M) = {#}" and "matched topic (under HASH M) = {#}"
    and "l \<noteq> PLUS \<Longrightarrow> l \<noteq> HASH \<Longrightarrow> matched topic (under l M) = (if l = level then hits rest M else {#})"
proof -
  show "matched topic (image_mset (Pair []) es) = {#}"
    using assms by (induction es) (simp_all add: filter_matches_def)
  show "matched topic (under PLUS M) = {#}"
    using assms by (induction M) (simp, case_tac x, simp add: filter_matches_def)
  show "matched topic (under HASH M) = {#}"
    using assms by (induction M) (simp, case_tac x, simp add: filter_matches_def)
  show "matched topic (under l M) = (if l = level then hits rest M else {#})" if "l \<noteq> PLUS" "l \<noteq> HASH"
    using assms that by (induction M) (simp, case_tac x, auto simp: filter_matches_def)
qed

lemma Match_matched:
  assumes "wf_node (root t)"
  shows "mset (Match t topic) = matched topic (registered t)"
proof (cases "HasPrefix topic [CHAR_dollar]")
  case False
  then show ?thesis
    using matchLevels_hits [OF assms, of topic 0]
    by (simp add: Match_def matched_def filter_matches_def registered_def hits_def levels_from_def)
next
  case True
  obtain ch pc hc hs where r: "root t = Node ch pc hc hs" by (cases "root t")
  obtain level nxt where nl: "next_level topic 0 = (level, nxt)" by fastforce
  have lv: "splitLevels topic = level # levels_from topic nxt"
    using levels_from_next [of 0 topic] nl by (simp add: levels_from_def)
  have wf: "distinct (map fst ch)" "\<And>l c. (l, c) \<in> set ch \<Longrightarrow> l \<noteq> PLUS \<and> l \<noteq> HASH \<and> wf_node c"
    using assms by (auto simp: r)
  have "matched topic (sum_list (map (\<lambda>(l, c). under l (regs_of c)) ch)) =
      sum_list (map (\<lambda>(l, c). if l = level then hits (levels_from topic nxt) (regs_of c) else 0) ch)"
    unfolding matched_sum_list map_map using wf(2)
    by (intro arg_cong [where f = sum_list] map_cong) (auto simp: matched_dollar(4) [OF True lv])
  also have "\<dots> = (case map_of ch level of None \<Rightarrow> 0 | Some c \<Rightarrow> hits (levels_from topic nxt) (regs_of c))"
    by (rule sum_map_of [OF wf(1)])
  also have "\<dots> = mset (matchDollar (root t) topic)"
  proof -
    have "matchDollar (root t) topic = (case map_of ch level of None \<Rightarrow> [] | Some c \<Rightarrow> matchLevels c topic nxt)"
      using nl by (cases "IndexByte topic CHAR_slash") (auto simp: matchDollar_def next_level_def r)
    moreover have "wf_node c" if "map_of ch level = Some c" for c
      using wf(2) map_of_SomeD [OF that] by blast
    ultimately show ?thesis
      by (cases "map_of ch level") (simp_all add: matchLevels_hits)
  qed
  finally show ?thesis
    using True by (simp add: Match_def registered_def r matched_dollar(1-3) [OF True lv] split: option.splits)
qed

subsection \<open>Lemmas: Register\<close>

lemma sum_update:
  fixes g :: "byte list \<times> 'h Node \<Rightarrow> 'h regs"
  assumes "distinct (map fst ch)"
  shows "sum_list (map g (AList.update k c ch)) + (case map_of ch k of None \<Rightarrow> {#} | Some b \<Rightarrow> g (k, b)) =
    sum_list (map g ch) + g (k, c)"
  using assms by (induction ch) (auto simp: map_of_eq_None_iff ac_simps split: option.splits)

lemma sum_delete:
  fixes g :: "byte list \<times> 'h Node \<Rightarrow> 'h regs"
  assumes "distinct (map fst ch)"
  shows "sum_list (map g (AList.delete k ch)) + (case map_of ch k of None \<Rightarrow> {#} | Some b \<Rightarrow> g (k, b)) =
    sum_list (map g ch)"
proof (cases "map_of ch k")
  case None
  then have "AList.delete k ch = ch"
    by (intro AList.delete_id) (simp add: map_of_eq_None_iff)
  with None show ?thesis by simp
next
  case (Some b)
  with assms show ?thesis
  proof (induction ch)
    case (Cons p ch)
    then have "fst p = k \<Longrightarrow> AList.delete k ch = ch"
      by (intro AList.delete_id) auto
    with Cons show ?case by (cases p) (auto simp: ac_simps simp del: map_of_eq_Some_iff)
  qed simp
qed

lemma regs_add_handler: "regs_of (add_handler e n) = add_mset ([], e) (regs_of n)"
  by (cases n) (simp add: add_handler_def)

lemma regs_or_new: "regs_of (or_new c) = (case c of None \<Rightarrow> {#} | Some n \<Rightarrow> regs_of n)"
  by (simp add: or_new_def split: option.splits)

lemma wf_or_new: "(case c of None \<Rightarrow> True | Some n \<Rightarrow> wf_node n) \<Longrightarrow> wf_node (or_new c)"
  by (simp add: or_new_def split: option.splits)

lemma wf_child:
  assumes "wf_node (Node ch pc hc hs)"
  shows "wf_node (or_new pc)" "level \<noteq> PLUS \<Longrightarrow> level \<noteq> HASH \<Longrightarrow> wf_node (or_new (map_of ch level))"
proof -
  show "wf_node (or_new pc)"
    using assms by (intro wf_or_new) (auto split: option.splits)
  show "wf_node (or_new (map_of ch level))"
    using assms by (intro wf_or_new) (auto split: option.splits dest!: map_of_SomeD)
qed

lemma regs_ensure:
  "wf_node n \<Longrightarrow> regs_of (ensure (add_handler e) levels n) = add_mset (filter_key levels, e) (regs_of n)"
proof (induction levels arbitrary: n)
  case Nil
  then show ?case by (simp add: regs_add_handler)
next
  case (Cons l ls)
  obtain ch pc hc hs where n: "n = Node ch pc hc hs" by (cases n)
  note wf = wf_child [OF Cons.prems [unfolded n]]
  consider "l = PLUS" | "l = HASH" | "l \<noteq> PLUS" "l \<noteq> HASH" by blast
  then show ?case
  proof cases
    case 1
    then show ?thesis
      using Cons.IH [OF wf(1)] by (simp add: n regs_or_new split: option.splits)
  next
    case 2
    then show ?thesis by (simp add: n regs_add_handler regs_or_new split: option.splits)
  next
    case 3
    let ?g = "\<lambda>(l, c). under l (regs_of c)" and ?c = "or_new (map_of ch l)"
    have "sum_list (map ?g (AList.update l (ensure (add_handler e) ls ?c) ch)) + under l (regs_of ?c) =
        sum_list (map ?g ch) + under l (regs_of (ensure (add_handler e) ls ?c))"
      using sum_update [of ch ?g l "ensure (add_handler e) ls ?c"] Cons.prems
      by (cases "map_of ch l") (simp_all add: n regs_or_new del: map_of_eq_Some_iff)
    then have "sum_list (map ?g (AList.update l (ensure (add_handler e) ls ?c) ch)) =
        add_mset (l # filter_key ls, e) (sum_list (map ?g ch))"
      using Cons.IH [OF wf(2) [OF 3]] by simp
    with 3 show ?thesis by (simp add: n)
  qed
qed

lemma ensure_not_empty: "\<not> node_empty (ensure (add_handler e) levels n)"
proof (cases levels)
  case (Cons l ls)
  then show ?thesis
    by (cases n) (auto simp: node_empty_def dest: arg_cong [where f = length] split: if_splits)
qed (simp add: node_empty_def add_handler_def)

lemma ball_update:
  "\<forall>(k, c) \<in> set ch. P k c \<Longrightarrow> P l c' \<Longrightarrow> \<forall>(k, c) \<in> set (AList.update l c' ch). P k c"
  by (induction ch) auto

lemma wf_ensure: "wf_node n \<Longrightarrow> wf_node (ensure (add_handler e) levels n)"
proof (induction levels arbitrary: n)
  case Nil
  then show ?case by (cases n) (simp add: add_handler_def)
next
  case (Cons l ls)
  obtain ch pc hc hs where n: "n = Node ch pc hc hs" by (cases n)
  note wf = wf_child [OF Cons.prems [unfolded n]]
  have "hash_leaf (add_handler e (or_new hc))"
    using Cons.prems by (auto simp: n hash_leaf_def add_handler_def or_new_def split: option.splits)
  moreover have "\<forall>(level, c) \<in> set (AList.update l (ensure (add_handler e) ls (or_new (map_of ch l))) ch).
      level \<noteq> PLUS \<and> level \<noteq> HASH \<and> wf_node c \<and> \<not> node_empty c" if "l \<noteq> PLUS" "l \<noteq> HASH"
    by (rule ball_update) (use Cons.IH [OF wf(2) [OF that]] Cons.prems that in \<open>simp_all add: n ensure_not_empty\<close>)
  ultimately show ?case
    using Cons.IH [OF wf(1)] Cons.prems by (simp add: n ensure_not_empty distinct_update)
qed

subsection \<open>Lemmas: Unregister\<close>

text \<open>The pruning loop as a recursion from the root.\<close>

fun relink :: "'h step list \<Rightarrow> 'h Node \<Rightarrow> 'h Node \<Rightarrow> 'h Node" where
  "relink [] n leaf = leaf"
| "relink ((level, c) # p) n leaf =
     (let c' = relink p c leaf in if node_empty c' then unset_child level n else set_child level c' n)"

lemma prune_up_relink:
  "prune_up (rev p @ (level, n) # rest) leaf = prune_up ((level, n) # rest) (relink p n leaf)"
  by (induction p arbitrary: level n rest) (auto simp: Let_def)

lemma prune_up_path: "prune_up (rev ((level, n) # p)) leaf = relink p n leaf"
  using prune_up_relink [of p level n "[]" leaf] by simp

lemma regs_set_child:
  assumes "wf_node n" and "child n level = Some c"
  shows "regs_of (set_child level c' n) + under level (regs_of c) = regs_of n + under level (regs_of c')"
    and "regs_of (unset_child level n) + under level (regs_of c) = regs_of n"
proof -
  obtain ch pc hc hs where n: "n = Node ch pc hc hs" by (cases n)
  have d: "distinct (map fst ch)" using assms(1) by (simp add: n)
  note upd = sum_update [OF d, of "\<lambda>(l, c). under l (regs_of c)" level c']
    and del = sum_delete [OF d, of "\<lambda>(l, c). under l (regs_of c)" level]
  consider "level = PLUS" "pc = Some c" | "level = HASH" "hc = Some c"
    | "level \<noteq> PLUS" "level \<noteq> HASH" "map_of ch level = Some c"
    using assms(2) by (auto simp: n child_def split: if_splits)
  then have "regs_of (set_child level c' n) + under level (regs_of c) = regs_of n + under level (regs_of c') \<and>
      regs_of (unset_child level n) + under level (regs_of c) = regs_of n"
  proof cases
    case 3
    have "sum_list (map (\<lambda>(l, c). under l (regs_of c)) (AList.update level c' ch)) + under level (regs_of c) =
        sum_list (map (\<lambda>(l, c). under l (regs_of c)) ch) + under level (regs_of c')"
      "sum_list (map (\<lambda>(l, c). under l (regs_of c)) (AList.delete level ch)) + under level (regs_of c) =
        sum_list (map (\<lambda>(l, c). under l (regs_of c)) ch)"
      using upd del unfolding 3(3) by simp_all
    then show ?thesis
      unfolding n set_child_def unset_child_def Node.sel if_not_P [OF 3(1)] if_not_P [OF 3(2)] regs_of.simps union_assoc
      by (simp only:)
  qed (simp_all add: n set_child_def unset_child_def union_ac)
  then show "regs_of (set_child level c' n) + under level (regs_of c) = regs_of n + under level (regs_of c')"
    "regs_of (unset_child level n) + under level (regs_of c) = regs_of n"
    by blast+
qed

lemma regs_empty: "node_empty n \<Longrightarrow> regs_of n = {#}"
  by (cases n) (simp add: node_empty_def)

lemma wf_hash_leaf: "hash_leaf n \<Longrightarrow> wf_node n \<and> \<not> node_empty n"
  by (cases n) (simp add: hash_leaf_def node_empty_def)

lemma wf_child_node: "wf_node n \<Longrightarrow> child n level = Some c \<Longrightarrow> wf_node c \<and> \<not> node_empty c"
  by (cases n) (auto simp: child_def wf_hash_leaf split: if_splits dest!: map_of_SomeD)

fun prefixed :: "byte list list \<Rightarrow> 'h regs \<Rightarrow> 'h regs" where
  "prefixed [] M = M"
| "prefixed (l # ls) M = under l (prefixed ls M)"

definition leaf_of :: "'h Node \<Rightarrow> 'h step list \<Rightarrow> 'h Node" where
  "leaf_of n p = (if p = [] then n else snd (last p))"

lemma regs_relink_step:
  assumes "wf_node n" and "child n level = Some c"
  shows "regs_of (if node_empty c' then unset_child level n else set_child level c' n) + under level (regs_of c) =
    regs_of n + under level (regs_of c')"
  using regs_set_child [OF assms] regs_empty [of c'] by auto

lemma mset_cancel:
  assumes "X + U = N + V" and "V + P = U + Q"
  shows "X + P = N + (Q :: 'a multiset)"
proof -
  have "U + (X + P) = (X + U) + P" by (simp only: union_ac)
  also have "\<dots> = N + (V + P)" unfolding assms(1) by (simp only: union_ac)
  also have "\<dots> = U + (N + Q)" unfolding assms(2) by (simp only: union_ac)
  finally show ?thesis by simp
qed

lemma regs_relink:
  "wf_node n \<Longrightarrow> path_from levels n = Some p \<Longrightarrow>
    regs_of (relink p n leaf) + prefixed (filter_key levels) (regs_of (leaf_of n p)) =
    regs_of n + prefixed (filter_key levels) (regs_of leaf)"
proof (induction levels arbitrary: n p)
  case Nil
  then show ?case by (simp add: leaf_of_def union_commute)
next
  case (Cons l ls)
  then obtain c where c: "child n l = Some c" by (auto split: option.splits)
  note step = regs_relink_step [OF Cons.prems(1) c]
  show ?case
  proof (cases "l = HASH")
    case True
    then have p: "p = [(HASH, c)]"
      using Cons.prems(2) c by simp
    show ?thesis
      using step [of leaf, unfolded True] by (cases "node_empty leaf") (simp_all add: p leaf_of_def True)
  next
    case False
    then obtain p' where p': "path_from ls c = Some p'" and p: "p = (l, c) # p'"
      using Cons.prems(2) c by auto
    let ?c = "relink p' c leaf" and ?P = "prefixed (filter_key ls)"
    have leaf: "leaf_of n p = leaf_of c p'" by (simp add: leaf_of_def p)
    have "wf_node c" using wf_child_node [OF Cons.prems(1) c] by simp
    from Cons.IH [OF this p'] have "under l (regs_of ?c) + under l (?P (regs_of (leaf_of c p'))) =
        under l (regs_of c) + under l (?P (regs_of leaf))"
      by (metis under_simps(2))
    from mset_cancel [OF step this] have "regs_of (relink p n leaf) + under l (?P (regs_of (leaf_of c p'))) =
        regs_of n + under l (?P (regs_of leaf))"
      by (simp add: p Let_def)
    then show ?thesis using False by (simp add: leaf)
  qed
qed

lemma in_under: "(ks, e) \<in># under l M \<longleftrightarrow> (\<exists>ks'. ks = l # ks' \<and> (ks', e) \<in># M)"
  by (force simp: under_def)

lemma in_sum_list: "x \<in># sum_list Ms \<longleftrightarrow> (\<exists>M \<in> set Ms. x \<in># M)"
  by (induction Ms) auto

lemma in_regs:
  "([], e) \<in># regs_of n \<longleftrightarrow> e \<in> set (handlers n)"
  "wf_node n \<Longrightarrow> (l # ks, e) \<in># regs_of n \<longleftrightarrow> (\<exists>c. child n l = Some c \<and> (ks, e) \<in># regs_of c)"
proof -
  obtain ch pc hc hs where n: "n = Node ch pc hc hs" by (cases n)
  show "([], e) \<in># regs_of n \<longleftrightarrow> e \<in> set (handlers n)"
    by (auto simp: n in_under in_sum_list split: option.splits)
  show "(l # ks, e) \<in># regs_of n \<longleftrightarrow> (\<exists>c. child n l = Some c \<and> (ks, e) \<in># regs_of c)" if wf: "wf_node n"
  proof -
    have d: "distinct (map fst ch)" "\<And>l c. (l, c) \<in> set ch \<Longrightarrow> l \<noteq> PLUS \<and> l \<noteq> HASH"
      using wf by (auto simp: n)
    have kids: "(l # ks, e) \<in># sum_list (map (\<lambda>(l, c). under l (regs_of c)) ch) \<longleftrightarrow>
        (\<exists>c. map_of ch l = Some c \<and> (ks, e) \<in># regs_of c)"
      using d(1) by (force simp: in_sum_list in_under)
    show ?thesis
      using d(2) map_of_SomeD [of ch] kids
      by (auto simp: n child_def in_under simp del: map_of_eq_Some_iff split: option.splits)
  qed
qed

lemma in_regs_path:
  "wf_node n \<Longrightarrow> (filter_key levels, e) \<in># regs_of n \<longleftrightarrow>
    (\<exists>p. path_from levels n = Some p \<and> e \<in> set (handlers (leaf_of n p)))"
proof (induction levels arbitrary: n)
  case Nil
  then show ?case by (simp add: in_regs leaf_of_def)
next
  case (Cons l ls)
  show ?case
  proof (cases "child n l")
    case None
    then show ?thesis using in_regs(2) [OF Cons.prems, of l] by (cases "l = HASH") simp_all
  next
    case (Some c)
    note c = wf_child_node [OF Cons.prems Some]
    show ?thesis
    proof (cases "l = HASH")
      case True
      then show ?thesis
        using Some in_regs(2) [OF Cons.prems, of HASH "[]" e] by (simp add: in_regs leaf_of_def)
    next
      case False
      have "leaf_of n ((l, c) # p) = leaf_of c p" for p by (simp add: leaf_of_def)
      then show ?thesis
        using Some False Cons.IH [of c] c in_regs(2) [OF Cons.prems, of l "filter_key ls" e] by auto
    qed
  qed
qed

lemma prefixed_add [simp]: "prefixed ls (add_mset ([], e) M) = add_mset (ls, e) (prefixed ls M)"
  by (induction ls) simp_all

lemma remove_id_Some:
  "remove_id rid hs = Some hs' \<Longrightarrow> \<exists>e. eid e = rid \<and> mset hs = add_mset e (mset hs')"
  by (induction hs arbitrary: hs') (auto split: if_splits)

lemma remove_id_None: "remove_id rid hs = None \<longleftrightarrow> (\<forall>e \<in> set hs. eid e \<noteq> rid)"
  by (induction hs) auto

lemma wf_handlers: "wf_node (Node ch pc hc hs) \<longleftrightarrow> wf_node (Node ch pc hc hs')"
  by simp

lemma wf_set_child:
  assumes "wf_node n" and "level = HASH \<Longrightarrow> hash_leaf c" and "wf_node c" and "\<not> node_empty c"
  shows "wf_node (set_child level c n)"
proof -
  obtain ch pc hc hs where n: "n = Node ch pc hc hs" by (cases n)
  have "\<forall>(level, c) \<in> set (AList.update level c ch). level \<noteq> PLUS \<and> level \<noteq> HASH \<and> wf_node c \<and> \<not> node_empty c"
    if "level \<noteq> PLUS" "level \<noteq> HASH"
    by (rule ball_update) (use assms that in \<open>simp_all add: n\<close>)
  then show ?thesis
    using assms by (simp add: n set_child_def distinct_update)
qed

lemma wf_unset_child: "wf_node n \<Longrightarrow> wf_node (unset_child level n)"
proof (cases n)
  case (Node ch pc hc hs)
  moreover assume "wf_node n"
  moreover have "set (AList.delete level ch) \<subseteq> set ch" by (auto simp: AList.delete_eq)
  ultimately show ?thesis by (auto simp: unset_child_def AList.distinct_delete)
qed

lemma wf_relink:
  "wf_node n \<Longrightarrow> path_from levels n = Some p \<Longrightarrow> wf_node leaf \<Longrightarrow>
    (p \<noteq> [] \<and> fst (last p) = HASH \<longrightarrow> node_empty leaf \<or> hash_leaf leaf) \<Longrightarrow> wf_node (relink p n leaf)"
proof (induction levels arbitrary: n p)
  case (Cons l ls)
  then obtain c where c: "child n l = Some c" by (auto split: option.splits)
  show ?case
  proof (cases "l = HASH")
    case True
    then have p: "p = [(HASH, c)]"
      using Cons.prems(2) c by simp
    show ?thesis
      using Cons.prems True by (auto simp: p Let_def intro: wf_unset_child wf_set_child)
  next
    case False
    then obtain p' where p': "path_from ls c = Some p'" and p: "p = (l, c) # p'"
      using Cons.prems(2) c by auto
    have "wf_node (relink p' c leaf)"
      using wf_child_node [OF Cons.prems(1) c] Cons.prems p' by (intro Cons.IH) (auto simp: p)
    then show ?thesis
      using Cons.prems(1) False by (auto simp: p Let_def intro: wf_unset_child wf_set_child)
  qed
qed simp

lemma path_last_hash:
  "wf_node n \<Longrightarrow> path_from levels n = Some p \<Longrightarrow> p \<noteq> [] \<Longrightarrow> fst (last p) = HASH \<Longrightarrow> hash_leaf (leaf_of n p)"
proof (induction levels arbitrary: n p)
  case (Cons l ls)
  then obtain c where c: "child n l = Some c" by (auto split: option.splits)
  show ?case
  proof (cases "l = HASH")
    case True
    then have "p = [(HASH, c)]" "hashChild n = Some c"
      using Cons.prems(2) c by (simp_all add: child_def)
    then show ?thesis
      using Cons.prems(1) by (cases n) (simp add: leaf_of_def)
  next
    case False
    then obtain p' where p': "path_from ls c = Some p'" and p: "p = (l, c) # p'"
      using Cons.prems(2) c by auto
    have "leaf_of n p = leaf_of c p'" "p' \<noteq> []"
      using Cons.prems False by (auto simp: p leaf_of_def)
    then show ?thesis
      using wf_child_node [OF Cons.prems(1) c] Cons.IH [OF _ p'] Cons.prems by (simp add: p)
  qed
qed simp

lemma wf_leaf_of: "wf_node n \<Longrightarrow> path_from levels n = Some p \<Longrightarrow> wf_node (leaf_of n p)"
proof (induction levels arbitrary: n p)
  case (Cons l ls)
  then obtain c where c: "child n l = Some c" by (auto split: option.splits)
  have "wf_node c" using wf_child_node [OF Cons.prems(1) c] ..
  moreover have "leaf_of n ((l, c) # p') = leaf_of c p'" for p' by (simp add: leaf_of_def)
  ultimately show ?case
    using Cons.prems c Cons.IH by (cases "l = HASH") (auto simp: leaf_of_def [of c "[]"])
qed (simp add: leaf_of_def)

subsection \<open>The operations on a tree\<close>

definition wf_tree :: "'h Tree \<Rightarrow> bool" where
  "wf_tree t = wf_node (root t)"

lemma wf_NewTree: "wf_tree NewTree"
  by (simp add: wf_tree_def NewTree_def)

lemma wf_Reset: "wf_tree (Reset t)"
  by (simp add: wf_tree_def Reset_def)

lemma Register_spec:
  assumes "wf_tree t" and "Register t flt h = (t', rid)"
  shows "wf_tree t'" "rid = nextID t + 1" "nextID t' = rid"
    "registered t' = add_mset (filter_key (splitLevels flt), entry rid h) (registered t)"
  using assms by (auto simp: Register_def Let_def wf_tree_def registered_def wf_ensure regs_ensure)

lemma Unregister_spec:
  assumes wf: "wf_tree t" and un: "Unregister t flt rid = (t', found)"
  shows "wf_tree t' \<and> nextID t' = nextID t \<and>
    (if found then \<exists>e. eid e = rid \<and> registered t = add_mset (filter_key (splitLevels flt), e) (registered t')
     else t' = t \<and> (\<forall>e. (filter_key (splitLevels flt), e) \<in># registered t \<longrightarrow> eid e \<noteq> rid))"
proof -
  let ?n = "root t" and ?ls = "splitLevels flt"
  have wfn: "wf_node ?n" using wf by (simp add: wf_tree_def)
  note in_reg = in_regs_path [OF wfn, of ?ls]
  show ?thesis
  proof (cases "path_from ?ls ?n")
    case None
    then show ?thesis
      using un wf in_reg by (auto simp: Unregister_def path_def registered_def)
  next
    case (Some p)
    let ?leaf = "leaf_of ?n p"
    have last: "snd (last (([], ?n) # p)) = ?leaf" by (simp add: leaf_of_def)
    show ?thesis
    proof (cases "remove_id rid (handlers ?leaf)")
      case None
      then have "t' = t" "\<not> found"
        using un Some by (simp_all add: Unregister_def path_def last Let_def del: last.simps)
      then show ?thesis
        using wf in_reg Some None by (simp add: registered_def remove_id_None)
    next
      case rem: (Some hs)
      let ?new = "Node (children ?leaf) (plusChild ?leaf) (hashChild ?leaf) hs"
      have t': "t' = t\<lparr>root := relink p ?n ?new\<rparr>" "found"
        using un Some rem prune_up_path [of "[]" ?n p ?new]
        by (simp_all add: Unregister_def path_def last Let_def del: last.simps)
      obtain e where e: "eid e = rid" "mset (handlers ?leaf) = add_mset e (mset hs)"
        using remove_id_Some [OF rem] by blast
      then have "regs_of ?leaf = add_mset ([], e) (regs_of ?new)"
        by (cases ?leaf) simp
      with regs_relink [OF wfn Some, of ?new]
      have "regs_of ?n = add_mset (filter_key ?ls, e) (regs_of (relink p ?n ?new))"
        by simp
      moreover have "wf_node (relink p ?n ?new)"
      proof (rule wf_relink [OF wfn Some])
        show "wf_node ?new"
          using wf_leaf_of [OF wfn Some] wf_handlers by (metis Node.exhaust_sel)
        show "p \<noteq> [] \<and> fst (last p) = HASH \<longrightarrow> node_empty ?new \<or> hash_leaf ?new"
          using path_last_hash [OF wfn Some] by (auto simp: hash_leaf_def node_empty_def)
      qed
      ultimately show ?thesis
        using t' e by (auto simp: wf_tree_def registered_def)
    qed
  qed
qed

lemma Reset_spec: "registered (Reset t) = {#}" "nextID (Reset t) = nextID t"
  by (simp_all add: Reset_def registered_def)

subsection \<open>The size of the tree\<close>

lemma under_empty_iff [simp]: "under level M = {#} \<longleftrightarrow> M = {#}"
  by (simp add: under_def)

lemma regs_nonempty: "wf_node n \<Longrightarrow> \<not> node_empty n \<Longrightarrow> regs_of n \<noteq> {#}"
proof (induction n rule: regs_of.induct)
  case (1 ch pc hc hs)
  have "regs_of c \<noteq> {#}" if "hash_leaf c" for c :: "'a Node"
    using that by (cases c) (simp add: hash_leaf_def)
  moreover have "ch \<noteq> [] \<or> pc \<noteq> None \<or> hc \<noteq> None \<or> hs \<noteq> []"
    using "1.prems"(2) by (auto simp: node_empty_def)
  moreover have "\<forall>(level, c) \<in> set ch. regs_of c \<noteq> {#}"
    using 1 by fastforce
  ultimately show ?case
    using 1 by (cases ch) (auto split: option.splits)
qed

definition path_size :: "'h regs \<Rightarrow> nat" where
  "path_size M = (\<Sum>(k, _) \<in># M. length k)"

lemma path_size_simps [simp]:
  "path_size {#} = 0" "path_size (M + N) = path_size M + path_size N"
  "path_size (under level M) = size M + path_size M"
  "path_size (mset (map (Pair []) hs)) = 0"
  by (simp_all add: path_size_def under_def)
    (induction M; auto simp: case_prod_unfold; fail | induction hs; simp)+

lemma path_size_sum [simp]: "path_size (sum_list Ms) = sum_list (map path_size Ms)"
  by (induction Ms) simp_all

lemma countNodes_hash_leaf: "hash_leaf c \<Longrightarrow> countNodes c = 1"
  by (cases c) (simp add: hash_leaf_def)

lemma countNodes_le: "wf_node n \<Longrightarrow> countNodes n \<le> 1 + path_size (regs_of n)"
proof (induction n rule: countNodes.induct)
  case (1 ch pc hc hs)
  have child: "countNodes c \<le> path_size (under level (regs_of c))"
    if "wf_node c" "\<not> node_empty c" "countNodes c \<le> 1 + path_size (regs_of c)" for c :: "'a Node" and level
    using that regs_nonempty [of c] by (cases "size (regs_of c)") auto
  have "(case pc of None \<Rightarrow> 0 | Some c \<Rightarrow> countNodes c) \<le>
      path_size (case pc of None \<Rightarrow> {#} | Some c \<Rightarrow> under PLUS (regs_of c))"
    using "1.prems" "1.IH"(1) child by (auto split: option.splits simp del: path_size_simps(3))
  moreover have "(case hc of None \<Rightarrow> 0 | Some c \<Rightarrow> countNodes c) \<le>
      path_size (case hc of None \<Rightarrow> {#} | Some c \<Rightarrow> under HASH (regs_of c))"
    using "1.prems" child [OF conjunct1 [OF wf_hash_leaf] conjunct2 [OF wf_hash_leaf]]
    by (auto split: option.splits simp: countNodes_hash_leaf simp del: path_size_simps(3) One_nat_def)
  moreover have "sum_list (map (\<lambda>(_, c). countNodes c) ch) \<le>
      path_size (sum_list (map (\<lambda>(level, c). under level (regs_of c)) ch))"
    unfolding path_size_sum map_map
    using "1.prems" "1.IH"(3) child
    by (intro sum_list_mono) (auto simp: case_prod_unfold simp del: path_size_simps(3))
  ultimately show ?case by simp
qed

lemma Nodes_le: "wf_tree t \<Longrightarrow> Nodes t \<le> 1 + path_size (registered t)"
  by (simp add: wf_tree_def Nodes_def registered_def countNodes_le del: One_nat_def)

lemma Nodes_empty: "wf_tree t \<Longrightarrow> registered t = {#} \<Longrightarrow> Nodes t = 1"
  using Nodes_le [of t] by (cases "root t") (simp add: Nodes_def)

subsection \<open>An index of registrations\<close>

text \<open>What the client relies on: the operations of an index change its registrations as follows,
  and a match returns the handlers of the registrations whose filter matches.\<close>

datatype 'h index_op = Add gostring 'h | Remove gostring u64 | Clear

definition index_step ::
  "('s \<Rightarrow> gostring \<Rightarrow> 'h \<Rightarrow> 's \<times> u64) \<Rightarrow> ('s \<Rightarrow> gostring \<Rightarrow> u64 \<Rightarrow> 's \<times> bool) \<Rightarrow> ('s \<Rightarrow> 's) \<Rightarrow>
    's \<Rightarrow> 'h index_op \<Rightarrow> 's" where
  "index_step reg unreg rst s ev =
     (case ev of Add flt h \<Rightarrow> fst (reg s flt h) | Remove flt rid \<Rightarrow> fst (unreg s flt rid) | Clear \<Rightarrow> rst s)"

text \<open>The reference: the live registrations and the last id.\<close>

definition live_step :: "'h regs \<times> u64 \<Rightarrow> 'h index_op \<Rightarrow> 'h regs \<times> u64" where
  "live_step = (\<lambda>(M, i) ev. case ev of
     Add flt h \<Rightarrow> (add_mset (filter_key (splitLevels flt), entry (i + 1) h) M, i + 1)
   | Remove flt rid \<Rightarrow> ({# (k, e) \<in># M. \<not> (k = filter_key (splitLevels flt) \<and> eid e = rid) #}, i)
   | Clear \<Rightarrow> ({#}, i))"

definition live :: "'h index_op list \<Rightarrow> 'h regs" where
  "live evs = fst (foldl live_step ({#}, 0) evs)"

definition unique_ids :: "nat \<Rightarrow> 'h regs \<times> u64 \<Rightarrow> bool" where
  "unique_ids n = (\<lambda>(M, i). unat i \<le> n \<and> (\<forall>x \<in># M. unat (eid (snd x)) \<le> unat i) \<and>
     (\<forall>j. size {# x \<in># M. eid (snd x) = j #} \<le> 1))"

lemma unique_ids_step:
  assumes "unique_ids n (M, i)" and "n + 1 < 2 ^ 64"
  shows "unique_ids (n + 1) (live_step (M, i) ev)"
proof (cases ev)
  case (Add flt h)
  have "unat (i + 1) = unat i + 1"
    using assms by (simp add: unique_ids_def unat_word_ariths)
  moreover from this have "{# x \<in># M. eid (snd x) = i + 1 #} = {#}"
    using assms by (fastforce simp: unique_ids_def filter_mset_eq_conv)
  ultimately show ?thesis
    using assms by (auto simp: Add unique_ids_def live_step_def)
next
  case (Remove flt rid)
  have "size {# x \<in># {# x \<in># M. P x #}. eid (snd x) = j #} \<le> 1" for P j
  proof (rule order_trans)
    show "size {# x \<in># {# x \<in># M. P x #}. eid (snd x) = j #} \<le> size {# x \<in># M. eid (snd x) = j #}"
      by (intro size_mset_mono multiset_filter_mono multiset_filter_subset)
    show "size {# x \<in># M. eid (snd x) = j #} \<le> 1"
      using assms(1) by (simp add: unique_ids_def)
  qed
  then show ?thesis
    using assms by (auto simp: Remove unique_ids_def live_step_def)
qed (use assms in \<open>simp add: unique_ids_def live_step_def\<close>)

lemma unique_ids_remove:
  assumes "unique_ids n (M, i)" and "M = add_mset (k, e) M'" and "eid e = rid"
  shows "{# (k', e') \<in># M. \<not> (k' = k \<and> eid e' = rid) #} = M'"
proof -
  have "size {# x \<in># M. eid (snd x) = rid #} \<le> 1"
    using assms(1) by (simp add: unique_ids_def)
  then have "{# x \<in># M'. eid (snd x) = rid #} = {#}"
    using assms(2, 3) by simp
  then show ?thesis
    using assms(2, 3) by (auto simp: filter_mset_eq_conv)
qed

lemma live_unique: "length evs < 2 ^ 64 \<Longrightarrow> unique_ids (length evs) (foldl live_step ({#}, 0) evs)"
proof (induction evs rule: rev_induct)
  case (snoc ev evs)
  then show ?case
    using unique_ids_step [of "length evs" "fst (foldl live_step ({#}, 0) evs)" "snd (foldl live_step ({#}, 0) evs)" ev]
    by simp
qed (simp add: unique_ids_def)

locale topic_index =
  fixes inv :: "'s \<Rightarrow> bool"
    and regs :: "'s \<Rightarrow> 'h regs"
    and last_id :: "'s \<Rightarrow> u64"
    and empty :: 's
    and reg :: "'s \<Rightarrow> gostring \<Rightarrow> 'h \<Rightarrow> 's \<times> u64"
    and unreg :: "'s \<Rightarrow> gostring \<Rightarrow> u64 \<Rightarrow> 's \<times> bool"
    and rst :: "'s \<Rightarrow> 's"
    and hits :: "'s \<Rightarrow> gostring \<Rightarrow> 'h list"
  assumes empty: "inv empty" "regs empty = {#}" "last_id empty = 0"
    and reg: "inv s \<Longrightarrow> reg s flt h = (s', rid) \<Longrightarrow> inv s' \<and> rid = last_id s + 1 \<and> last_id s' = rid \<and>
      regs s' = add_mset (filter_key (splitLevels flt), entry rid h) (regs s)"
    and unreg: "inv s \<Longrightarrow> unreg s flt rid = (s', found) \<Longrightarrow> inv s' \<and> last_id s' = last_id s \<and>
      (if found then \<exists>e. eid e = rid \<and> regs s = add_mset (filter_key (splitLevels flt), e) (regs s')
       else s' = s \<and> (\<forall>e. (filter_key (splitLevels flt), e) \<in># regs s \<longrightarrow> eid e \<noteq> rid))"
    and rst: "inv s \<Longrightarrow> inv (rst s) \<and> regs (rst s) = {#} \<and> last_id (rst s) = last_id s"
    and hits: "inv s \<Longrightarrow> mset (hits s topic) = matched topic (regs s)"
begin

abbreviation step :: "'s \<Rightarrow> 'h index_op \<Rightarrow> 's" where
  "step \<equiv> index_step reg unreg rst"

lemma step_live:
  assumes "inv s" and "unique_ids n (regs s, last_id s)"
  shows "inv (step s ev) \<and> (regs (step s ev), last_id (step s ev)) = live_step (regs s, last_id s) ev"
proof (cases ev)
  case (Add flt h)
  obtain s' rid where "reg s flt h = (s', rid)" by fastforce
  with reg [OF assms(1) this] show ?thesis by (simp add: Add index_step_def live_step_def)
next
  case (Remove flt rid)
  obtain s' found where un: "unreg s flt rid = (s', found)" by fastforce
  show ?thesis
  proof (cases found)
    case True
    then obtain e where "eid e = rid" "regs s = add_mset (filter_key (splitLevels flt), e) (regs s')"
      using unreg [OF assms(1) un] by auto
    with unique_ids_remove [OF assms(2) this(2, 1)] unreg [OF assms(1) un] un show ?thesis
      by (simp add: Remove index_step_def live_step_def)
  next
    case False
    then have "{# (k, e) \<in># regs s. \<not> (k = filter_key (splitLevels flt) \<and> eid e = rid) #} = regs s"
      using unreg [OF assms(1) un] by (auto simp: filter_mset_eq_conv)
    with False unreg [OF assms(1) un] un assms(1) show ?thesis
      by (simp add: Remove index_step_def live_step_def)
  qed
next
  case Clear
  then show ?thesis using rst [OF assms(1)] by (simp add: index_step_def live_step_def)
qed

lemma run_live:
  assumes "inv s" and "unique_ids n (regs s, last_id s)" and "n + length evs < 2 ^ 64"
  shows "inv (foldl step s evs) \<and>
    (regs (foldl step s evs), last_id (foldl step s evs)) = foldl live_step (regs s, last_id s) evs"
  using assms
proof (induction evs arbitrary: s n)
  case (Cons ev evs)
  have "unique_ids (n + 1) (regs (step s ev), last_id (step s ev))"
    using step_live [OF Cons.prems(1,2), of ev] unique_ids_step [OF Cons.prems(2), of ev] Cons.prems(3) by simp
  with Cons.IH [of "step s ev" "n + 1"] step_live [OF Cons.prems(1,2), of ev] Cons.prems(3) show ?case
    by simp
qed simp

lemma hits_live:
  assumes "length evs < 2 ^ 64"
  shows "inv (foldl step empty evs)" "regs (foldl step empty evs) = live evs"
    "mset (hits (foldl step empty evs) topic) = matched topic (live evs)"
proof -
  have "unique_ids 0 (regs empty, last_id empty)"
    by (simp add: unique_ids_def empty)
  then show inv: "inv (foldl step empty evs)" and regs: "regs (foldl step empty evs) = live evs"
    using run_live [OF empty(1), of 0 evs] assms by (auto simp: live_def empty prod_eq_iff)
  show "mset (hits (foldl step empty evs) topic) = matched topic (live evs)"
    using hits [OF inv] by (simp add: regs)
qed

end

interpretation trie: topic_index wf_tree registered nextID NewTree Register Unregister Reset Match
proof
  show "wf_tree NewTree" "registered NewTree = {#}" "nextID NewTree = 0"
    by (simp_all add: wf_NewTree) (simp_all add: NewTree_def registered_def)
  fix t t' :: "'a Tree" and flt topic rid found h
  assume wf: "wf_tree t"
  show "Register t flt h = (t', rid) \<Longrightarrow> wf_tree t' \<and> rid = nextID t + 1 \<and> nextID t' = rid \<and>
      registered t' = add_mset (filter_key (splitLevels flt), entry rid h) (registered t)"
    using Register_spec [OF wf] by blast
  show "wf_tree (Reset t) \<and> registered (Reset t) = {#} \<and> nextID (Reset t) = nextID t"
    by (simp add: wf_Reset Reset_spec)
  show "mset (Match t topic) = matched topic (registered t)"
    using wf by (simp add: wf_tree_def Match_matched)
qed (rule Unregister_spec)

subsection \<open>Properties\<close>

text \<open>C16. Dispatch refines the list of live registrations: after any sequence of \<open>Register\<close>, \<open>Unregister\<close>
  and \<open>Reset\<close> calls, \<open>Match\<close> yields for a topic exactly the handlers of the registrations that are still
  live and whose filter matches the topic by the rules of section 4.7 of the standard, each once.\<close>

theorem Match_live:
  assumes "length evs < 2 ^ 64"
  shows "mset (Match (foldl (index_step Register Unregister Reset) NewTree evs) topic) = matched topic (live evs)"
  by (rule trie.hits_live [OF assms])

text \<open>The witnesses run \<open>Register\<close> of \<open>a/+\<close>, \<open>a/#\<close> and \<open>b\<close>, and \<open>Unregister\<close> of the second.\<close>

definition example_ops :: "nat index_op list" where
  "example_ops = [Add [97, 47, 43] 1, Add [97, 47, 35] 2, Add [98] 3, Remove [97, 47, 35] 2]"

lemmas trie_eval = example_ops_def NewTree_def index_step_def Register_def Unregister_def splitLevels_def
  add_handler_def or_new_def path_def child_def unset_child_def set_child_def node_empty_def
  Match_def HasPrefix_def next_level_def IndexByte_def Let_def

lemma example_run:
  "foldl (index_step Register Unregister Reset) NewTree example_ops =
    \<lparr>root = Node [([97], Node [] (Some (Node [] None None [entry 1 1])) None []), ([98], Node [] None None [entry 3 3])]
       None None [], nextID = 3\<rparr>"
  by (simp add: trie_eval)

lemma example_live: "live example_ops = {#([[97], [43]], entry 1 1), ([[98]], entry 3 3)#}"
  by (simp add: live_def live_step_def example_ops_def splitLevels_def)

theorem Match_live_witness:
  "length example_ops < 2 ^ 64 \<and>
    Match (foldl (index_step Register Unregister Reset) NewTree example_ops) [97, 47, 120] = [1] \<and>
    matched [97, 47, 120] (live example_ops) = {#1#}"
  using Match_live [of example_ops "[97, 47, 120]"]
  by (simp add: example_run) (simp add: trie_eval)

text \<open>C17. The tree is pruned: it stays well formed, has one node when nothing is registered, and never
  has more nodes than the levels of the live registrations and the root.\<close>

theorem Nodes_live:
  assumes "length evs < 2 ^ 64"
  shows "wf_tree (foldl (index_step Register Unregister Reset) NewTree evs) \<and>
    Nodes (foldl (index_step Register Unregister Reset) NewTree evs) \<le> 1 + (\<Sum>(k, _) \<in># live evs. length k)"
  using trie.hits_live(1,2) [OF assms] Nodes_le [of "foldl (index_step Register Unregister Reset) NewTree evs"]
  by (simp add: path_size_def)

theorem Nodes_live_witness:
  "length example_ops < 2 ^ 64 \<and> Nodes (foldl (index_step Register Unregister Reset) NewTree example_ops) = 4 \<and>
    (\<Sum>(k, _) \<in># live example_ops. length k) = 3 \<and>
    wf_tree (foldl (index_step Register Unregister Reset) NewTree example_ops)"
  using Nodes_live [of example_ops] by (simp add: example_run example_live Nodes_def) (simp add: example_ops_def)

text \<open>C18. A registration can be taken back: \<open>Unregister\<close> with the filter and the id that \<open>Register\<close>
  returned reports that it found the handler, and leaves the registrations as they were.\<close>

theorem Unregister_Register:
  assumes "length evs + 1 < 2 ^ 64"
    and "t = foldl (index_step Register Unregister Reset) NewTree evs"
    and "Register t flt h = (t1, rid)" and "Unregister t1 flt rid = (t2, found)"
  shows "found \<and> registered t2 = registered t \<and> mset (Match t2 topic) = mset (Match t topic)"
proof -
  let ?evs = "evs @ [Add flt h]" and ?k = "filter_key (splitLevels flt)"
  have wf: "wf_tree t"
    using trie.hits_live(1) [of evs] assms(1,2) by simp
  note t1 = Register_spec [OF wf assms(3)]
  note t2 = Unregister_spec [OF t1(1) assms(4)]
  then have found using t1(4) by (auto split: if_splits)
  with t2 obtain e where e: "eid e = rid" "registered t1 = add_mset (?k, e) (registered t2)"
    by auto
  have "registered t1 = live ?evs"
    using trie.hits_live(2) [of ?evs] assms(1-3) by (simp add: index_step_def)
  then have u: "unique_ids (length ?evs) (registered t1, snd (foldl live_step ({#}, 0) ?evs))"
    using live_unique [of ?evs] assms(1) by (simp add: live_def)
  have "registered t2 = registered t"
    using unique_ids_remove [OF u e(2,1)] unique_ids_remove [OF u t1(4)] by simp
  then show ?thesis
    using \<open>found\<close> t2 wf by (simp add: wf_tree_def Match_matched)
qed

theorem Unregister_Register_witness:
  "length example_ops + 1 < 2 ^ 64 \<and>
    (\<exists>t1 t2. Register (foldl (index_step Register Unregister Reset) NewTree example_ops) [97, 47, 43] 5 = (t1, 4) \<and>
      Unregister t1 [97, 47, 43] 4 = (t2, True) \<and> Match t1 [97, 47, 120] = [1, 5] \<and>
      mset (Match t2 [97, 47, 120]) = {#1#})"
proof -
  let ?t = "foldl (index_step Register Unregister Reset) NewTree example_ops"
  obtain t1 t2 where t1: "Register ?t [97, 47, 43] 5 = (t1, 4)" and m: "Match t1 [97, 47, 120] = [1, 5]"
    and t2: "Unregister t1 [97, 47, 43] 4 = (t2, True)"
    by (simp add: example_run) (simp add: trie_eval)
  moreover have "length example_ops + 1 < 2 ^ 64" by (simp add: example_ops_def)
  moreover have "mset (Match ?t [97, 47, 120]) = {#1#}" by (simp add: example_run) (simp add: trie_eval)
  ultimately show ?thesis
    using Unregister_Register [of example_ops ?t "[97, 47, 43]" 5 t1 4 t2 True "[97, 47, 120]"] by auto
qed

end
