(* ===== verification/Client_Prelude.thy ===== *)
theory Client_Prelude
  imports Prelude "HOL-Library.AList" "HOL-Library.Multiset" "HOL-Library.Signed_Division"
begin

text \<open>
  What the theories of the client packages share: Go's maps as association lists with unique keys,
  \<open>slices.SortFunc\<close> with \<open>cmp.Compare\<close>, and \<open>time.Time\<close>.
\<close>

subsection \<open>Maps\<close>

text \<open>A Go map is an association list; its order stands for the unspecified iteration order.\<close>

type_synonym ('k, 'v) gomap = "('k \<times> 'v) list"

definition wf_map :: "('k, 'v) gomap \<Rightarrow> bool" where
  "wf_map m = distinct (map fst m)"

lemma wf_map_simps [simp]:
  "wf_map []" "wf_map m \<Longrightarrow> wf_map (AList.update k v m)" "wf_map m \<Longrightarrow> wf_map (AList.delete k m)"
  by (simp_all add: wf_map_def distinct_update AList.distinct_delete)

lemma map_of_update [simp]: "map_of (AList.update k v m) = (map_of m)(k \<mapsto> v)"
  by (rule update_conv')

lemma map_of_delete_upd [simp]: "map_of (AList.delete k m) = (map_of m)(k := None)"
  by (rule AList.delete_conv')

lemma wf_map_in [simp]: "wf_map m \<Longrightarrow> (k, v) \<in> set m \<longleftrightarrow> map_of m k = Some v"
  by (simp add: wf_map_def)

lemma wf_map_length: "wf_map m \<Longrightarrow> length m = card (dom (map_of m))"
  by (metis wf_map_def distinct_card length_map list.set_map dom_map_of_conv_image_fst)

lemma length_update: "wf_map m \<Longrightarrow>
    length (AList.update k v m) = (if map_of m k = None then length m + 1 else length m)"
  by (auto simp: wf_map_length card_insert_if finite_dom_map_of domI)

lemma length_delete: "wf_map m \<Longrightarrow>
    length (AList.delete k m) = (if map_of m k = None then length m else length m - 1)"
  by (auto simp: wf_map_length card_Diff_singleton_if finite_dom_map_of domI)

subsection \<open>Sorting\<close>

definition Compare :: "'a :: linorder \<Rightarrow> 'a \<Rightarrow> int" where
  "Compare a b = (if a < b then -1 else if a = b then 0 else 1)"

lemma Compare_simps [simp]:
  "Compare a b \<le> 0 \<longleftrightarrow> a \<le> b" "Compare a b < 0 \<longleftrightarrow> a < b" "Compare a b = 0 \<longleftrightarrow> a = b"
  by (auto simp: Compare_def)

text \<open>\<open>slices.SortFunc\<close>: any sorting gives this list when no two elements compare equal.\<close>

primrec insert_by :: "('a \<Rightarrow> 'a \<Rightarrow> int) \<Rightarrow> 'a \<Rightarrow> 'a list \<Rightarrow> 'a list" where
  "insert_by c x [] = [x]"
| "insert_by c x (y # ys) = (if c x y \<le> 0 then x # y # ys else y # insert_by c x ys)"

definition SortFunc :: "('a \<Rightarrow> 'a \<Rightarrow> int) \<Rightarrow> 'a list \<Rightarrow> 'a list" where
  "SortFunc c xs = foldr (insert_by c) xs []"

lemma mset_SortFunc [simp]: "mset (SortFunc c xs) = mset xs"
proof -
  have "mset (insert_by c x ys) = add_mset x (mset ys)" for x ys
    by (induction ys) auto
  then show ?thesis
    unfolding SortFunc_def by (induction xs) simp_all
qed

lemma set_SortFunc [simp]: "set (SortFunc c xs) = set xs"
  using mset_SortFunc by (metis set_mset_mset)

lemma length_SortFunc [simp]: "length (SortFunc c xs) = length xs"
  using mset_SortFunc by (metis size_mset)

lemma distinct_SortFunc [simp]: "distinct (SortFunc c xs) \<longleftrightarrow> distinct xs"
  using mset_SortFunc mset_eq_imp_distinct_iff by blast

lemma SortFunc_key:
  assumes "\<And>a b. c a b \<le> 0 \<longleftrightarrow> f a \<le> f b"
  shows "SortFunc c xs = sort_key f xs"
proof -
  have "insert_by c x ys = insort_key f x ys" for x ys
    by (induction ys) (simp_all add: assms)
  then have "insert_by c = insort_key f" by (intro ext)
  then show ?thesis by (simp add: SortFunc_def sort_key_def)
qed

text \<open>A list that is sorted already, with distinct keys, is what sorting any permutation gives.\<close>

lemma sort_key_unique:
  assumes "mset xs = mset ys" and "sorted (map f ys)" and "distinct (map f ys)"
  shows "sort_key f xs = ys"
proof (rule sort_key_inj_key_eq [OF assms(1) _ assms(2)])
  have "set xs = set ys" using assms(1) by (metis set_mset_mset)
  then show "inj_on f (set xs)" using assms(3) by (simp add: distinct_map)
qed

subsection \<open>Time\<close>

text \<open>\<open>time.Time\<close> in nanoseconds; the zero time is \<open>None\<close>. \<open>Sub\<close> saturates at the range of
  \<open>time.Duration\<close>, and arithmetic on durations wraps.\<close>

type_synonym Time = "int option"

definition sat64 :: "int \<Rightarrow> int" where
  "sat64 d = max (- (2 ^ 63)) (min (2 ^ 63 - 1) d)"

definition wrap64 :: "int \<Rightarrow> int" where
  "wrap64 d = (d + 2 ^ 63) mod 2 ^ 64 - 2 ^ 63"

lemma sat64_id: "- (2 ^ 63) \<le> d \<Longrightarrow> d < 2 ^ 63 \<Longrightarrow> sat64 d = d"
  by (simp add: sat64_def)

lemma wrap64_id: "- (2 ^ 63) \<le> d \<Longrightarrow> d < 2 ^ 63 \<Longrightarrow> wrap64 d = d"
  unfolding wrap64_def by (subst mod_pos_pos_trivial) simp_all

end
