(* ===== verification/Session_Store.thy ===== *)
theory Session_Store
  imports Client_Prelude
begin

text \<open>
  Package \<open>session\<close> (\<open>session/store.go\<close>): the records of unfinished QoS 1/2 flows, the contract of a
  \<open>Store\<close> as a locale, and \<open>MemoryStore\<close>, which implements it. Byte slices are values, so the copies
  \<open>bytes.Clone\<close> makes are the values themselves; nil and the empty slice are not distinguished,
  as no code distinguishes them.
\<close>

subsection \<open>Records\<close>

type_synonym Direction = byte
type_synonym Phase = byte

abbreviation (input) Outbound :: Direction where "Outbound \<equiv> 1"
abbreviation (input) Inbound :: Direction where "Inbound \<equiv> 2"

abbreviation (input) AwaitPuback :: Phase where "AwaitPuback \<equiv> 1"
abbreviation (input) AwaitPubrec :: Phase where "AwaitPubrec \<equiv> 2"
abbreviation (input) AwaitPubcomp :: Phase where "AwaitPubcomp \<equiv> 3"
abbreviation (input) AwaitPubrel :: Phase where "AwaitPubrel \<equiv> 4"
abbreviation (input) Completed :: Phase where "Completed \<equiv> 5"

abbreviation (input) OutcomeAccepted :: byte where "OutcomeAccepted \<equiv> 0x00"
abbreviation (input) OutcomeSessionLost :: byte where "OutcomeSessionLost \<equiv> 0x01"
abbreviation (input) OutcomeExpired :: byte where "OutcomeExpired \<equiv> 0x02"
abbreviation (input) OutcomePacketTooLarge :: byte where "OutcomePacketTooLarge \<equiv> 0x03"
abbreviation (input) OutcomeRetainNotSupported :: byte where "OutcomeRetainNotSupported \<equiv> 0x04"
abbreviation (input) OutcomeQoSNotSupported :: byte where "OutcomeQoSNotSupported \<equiv> 0x05"

definition Phase_Valid :: "Phase \<Rightarrow> Direction \<Rightarrow> bool" where
  "Phase_Valid p d =
     (if d = Outbound then p = AwaitPuback \<or> p = AwaitPubrec \<or> p = AwaitPubcomp \<or> p = Completed
      else if d = Inbound then p = AwaitPubrel
      else False)"

datatype RecordKey = RecordKey (Dir: Direction) (PacketID: u16)

record Record =
  r_Key :: RecordKey
  r_Seq :: u64
  r_PubrecSeq :: u64
  r_Outcome :: byte
  r_QoS :: byte
  r_Phase :: Phase
  r_Packet :: "byte list"
  r_ExpiresAt :: Time
  r_Ref :: "byte list"

definition MaxRefLen :: nat where
  "MaxRefLen = 255"

datatype session_error = ErrInvalidRecord | ErrClosed

definition Record_Validate :: "Record \<Rightarrow> session_error option" where
  "Record_Validate r =
     (if \<not> Phase_Valid (r_Phase r) (Dir (r_Key r)) then Some ErrInvalidRecord
      else if length (r_Ref r) > MaxRefLen then Some ErrInvalidRecord
      else None)"

record Meta =
  ClientID :: gostring
  SessionExpiry :: u32

definition zero_Meta :: Meta where
  "zero_Meta = \<lparr>ClientID = [], SessionExpiry = 0\<rparr>"

subsection \<open>MemoryStore\<close>

record MemoryStore =
  closed :: bool
  meta :: Meta
  records :: "(RecordKey, Record) gomap"

definition NewMemoryStore :: MemoryStore where
  "NewMemoryStore = \<lparr>closed = False, meta = zero_Meta, records = []\<rparr>"

definition compareRecords :: "Record \<Rightarrow> Record \<Rightarrow> int" where
  "compareRecords a b =
     (let c = Compare (Dir (r_Key a)) (Dir (r_Key b)) in
      if c \<noteq> 0 then c
      else if Dir (r_Key a) = Outbound then Compare (r_Seq a) (r_Seq b)
      else Compare (PacketID (r_Key a)) (PacketID (r_Key b)))"

definition Load :: "MemoryStore \<Rightarrow> session_error + Meta \<times> Record list" where
  "Load s =
     (if closed s then Inl ErrClosed
      else Inr (meta s, SortFunc compareRecords (map snd (records s))))"

definition Put :: "MemoryStore \<Rightarrow> Record \<Rightarrow> MemoryStore \<times> session_error option" where
  "Put s r =
     (case Record_Validate r of
        Some err \<Rightarrow> (s, Some err)
      | None \<Rightarrow> if closed s then (s, Some ErrClosed)
                else (s\<lparr>records := AList.update (r_Key r) r (records s)\<rparr>, None))"

definition Delete :: "MemoryStore \<Rightarrow> RecordKey \<Rightarrow> MemoryStore \<times> session_error option" where
  "Delete s k =
     (if closed s then (s, Some ErrClosed) else (s\<lparr>records := AList.delete k (records s)\<rparr>, None))"

definition SetMeta :: "MemoryStore \<Rightarrow> Meta \<Rightarrow> MemoryStore \<times> session_error option" where
  "SetMeta s m = (if closed s then (s, Some ErrClosed) else (s\<lparr>meta := m\<rparr>, None))"

definition Store_Reset :: "MemoryStore \<Rightarrow> MemoryStore \<times> session_error option" where
  "Store_Reset s =
     (if closed s then (s, Some ErrClosed) else (s\<lparr>meta := zero_Meta, records := []\<rparr>, None))"

definition Close :: "MemoryStore \<Rightarrow> MemoryStore \<times> session_error option" where
  "Close s = (s\<lparr>closed := True\<rparr>, None)"

subsection \<open>The contract of a store\<close>

text \<open>What the documentation of \<open>Store\<close> promises, as a transition on the records a store holds: the
  reference state is closed or not, the meta and the map of records.\<close>

datatype store_op = OpPut Record | OpDelete RecordKey | OpSetMeta Meta | OpReset | OpClose

record store_spec =
  ended :: bool
  held_meta :: Meta
  held :: "RecordKey \<Rightarrow> Record option"

definition empty_spec :: store_spec where
  "empty_spec = \<lparr>ended = False, held_meta = zero_Meta, held = (\<lambda>_. None)\<rparr>"

definition spec_step :: "store_spec \<Rightarrow> store_op \<Rightarrow> store_spec" where
  "spec_step s ev =
     (if ended s then s
      else case ev of
        OpPut r \<Rightarrow> if Record_Validate r = None then s\<lparr>held := (held s)(r_Key r \<mapsto> r)\<rparr> else s
      | OpDelete k \<Rightarrow> s\<lparr>held := (held s)(k := None)\<rparr>
      | OpSetMeta m \<Rightarrow> s\<lparr>held_meta := m\<rparr>
      | OpReset \<Rightarrow> s\<lparr>held_meta := zero_Meta, held := (\<lambda>_. None)\<rparr>
      | OpClose \<Rightarrow> s\<lparr>ended := True\<rparr>)"

definition spec_refuses :: "store_spec \<Rightarrow> store_op \<Rightarrow> bool" where
  "spec_refuses s ev =
     (case ev of
        OpClose \<Rightarrow> False
      | OpPut r \<Rightarrow> ended s \<or> Record_Validate r \<noteq> None
      | _ \<Rightarrow> ended s)"

definition store_step ::
  "('s \<Rightarrow> Record \<Rightarrow> 's \<times> 'e option) \<Rightarrow> ('s \<Rightarrow> RecordKey \<Rightarrow> 's \<times> 'e option) \<Rightarrow>
   ('s \<Rightarrow> Meta \<Rightarrow> 's \<times> 'e option) \<Rightarrow> ('s \<Rightarrow> 's \<times> 'e option) \<Rightarrow> ('s \<Rightarrow> 's \<times> 'e option) \<Rightarrow>
   's \<Rightarrow> store_op \<Rightarrow> 's \<times> 'e option" where
  "store_step put del setm rst cls s ev =
     (case ev of
        OpPut r \<Rightarrow> put s r | OpDelete k \<Rightarrow> del s k | OpSetMeta m \<Rightarrow> setm s m | OpReset \<Rightarrow> rst s | OpClose \<Rightarrow> cls s)"

text \<open>What \<open>Load\<close> may return: every record held, once, the outbound ones ordered by \<open>Seq\<close>.\<close>

definition loaded :: "store_spec \<Rightarrow> Meta \<times> Record list \<Rightarrow> bool" where
  "loaded s = (\<lambda>(m, rs). m = held_meta s \<and> distinct (map r_Key rs) \<and>
     (\<forall>r. r \<in> set rs \<longleftrightarrow> held s (r_Key r) = Some r) \<and>
     sorted (map r_Seq (filter (\<lambda>r. Dir (r_Key r) = Outbound) rs)))"

locale session_store =
  fixes view :: "'s \<Rightarrow> store_spec"
    and inv :: "'s \<Rightarrow> bool"
    and new :: 's
    and load :: "'s \<Rightarrow> 'e + Meta \<times> Record list"
    and put :: "'s \<Rightarrow> Record \<Rightarrow> 's \<times> 'e option"
    and del :: "'s \<Rightarrow> RecordKey \<Rightarrow> 's \<times> 'e option"
    and setm :: "'s \<Rightarrow> Meta \<Rightarrow> 's \<times> 'e option"
    and rst :: "'s \<Rightarrow> 's \<times> 'e option"
    and cls :: "'s \<Rightarrow> 's \<times> 'e option"
  assumes new: "inv new" "view new = empty_spec"
    and step: "inv s \<Longrightarrow> store_step put del setm rst cls s ev = (s', err) \<Longrightarrow>
      inv s' \<and> view s' = spec_step (view s) ev \<and> (err \<noteq> None \<longleftrightarrow> spec_refuses (view s) ev)"
    and load: "inv s \<Longrightarrow> (case load s of Inl _ \<Rightarrow> ended (view s) | Inr x \<Rightarrow> \<not> ended (view s) \<and> loaded (view s) x)"
begin

abbreviation run :: "store_op list \<Rightarrow> 's" where
  "run \<equiv> foldl (\<lambda>s ev. fst (store_step put del setm rst cls s ev)) new"

lemma run_view: "inv (run evs) \<and> view (run evs) = foldl spec_step empty_spec evs"
proof (induction evs rule: rev_induct)
  case (snoc ev evs)
  obtain s' err where "store_step put del setm rst cls (run evs) ev = (s', err)" by fastforce
  with step [of "run evs" ev s' err] snoc show ?case by simp
qed (simp add: new)

lemma load_run:
  "case load (run evs) of
     Inl _ \<Rightarrow> ended (foldl spec_step empty_spec evs)
   | Inr x \<Rightarrow> \<not> ended (foldl spec_step empty_spec evs) \<and> loaded (foldl spec_step empty_spec evs) x"
  using load [of "run evs"] run_view [of evs] by (cases "load (run evs)") simp_all

end

subsection \<open>MemoryStore implements the contract\<close>

definition store_view :: "MemoryStore \<Rightarrow> store_spec" where
  "store_view s = \<lparr>ended = closed s, held_meta = meta s, held = map_of (records s)\<rparr>"

definition store_ok :: "MemoryStore \<Rightarrow> bool" where
  "store_ok s = (wf_map (records s) \<and> (\<forall>k r. map_of (records s) k = Some r \<longrightarrow> r_Key r = k))"

definition load_key :: "Record \<Rightarrow> nat" where
  "load_key r = unat (Dir (r_Key r)) * 2 ^ 64 +
     (if Dir (r_Key r) = Outbound then unat (r_Seq r) else unat (PacketID (r_Key r)))"

lemma load_key_less: "load_key r < unat (Dir (r_Key r)) * 2 ^ 64 + 2 ^ 64"
proof -
  have "unat (r_Seq r) < 2 ^ LENGTH(64)" by (rule unsigned_less)
  then show ?thesis
    using unat_less(2) [of "PacketID (r_Key r)"] by (simp add: load_key_def)
qed

lemma compareRecords_key: "compareRecords a b \<le> 0 \<longleftrightarrow> load_key a \<le> load_key b"
proof (cases "Dir (r_Key a) = Dir (r_Key b)")
  case True
  then show ?thesis
    by (simp add: compareRecords_def load_key_def word_le_nat_alt)
next
  case False
  have "load_key a < load_key b" if "unat (Dir (r_Key a)) < unat (Dir (r_Key b))" for a b
  proof -
    have "(unat (Dir (r_Key a)) + 1) * 2 ^ 64 \<le> unat (Dir (r_Key b)) * 2 ^ 64"
      using that by (intro mult_right_mono) auto
    then show ?thesis
      using load_key_less [of a] by (simp add: load_key_def [of b])
  qed
  from this [of a b] this [of b a] False show ?thesis
    by (cases "Dir (r_Key a)" "Dir (r_Key b)" rule: linorder_cases)
      (auto simp: compareRecords_def word_less_nat_alt Compare_def)
qed

lemma Load_loaded:
  assumes "store_ok s" and "Load s = Inr x"
  shows "loaded (store_view s) x"
proof -
  let ?rs = "sort_key load_key (map snd (records s))"
  have x: "x = (meta s, ?rs)"
    using assms(2) SortFunc_key [where c = compareRecords and f = load_key, OF compareRecords_key]
    by (auto simp: Load_def split: if_splits)
  have key: "r_Key r = k" if "(k, r) \<in> set (records s)" for k r
    using assms(1) that by (simp add: store_ok_def)
  then have keys: "map r_Key (map snd (records s)) = map fst (records s)"
    by auto
  have "distinct (map r_Key ?rs)"
    using assms(1) keys by (metis distinct_map mset_eq_imp_distinct_iff mset_map mset_sort store_ok_def wf_map_def)
  moreover have "r \<in> set ?rs \<longleftrightarrow> map_of (records s) (r_Key r) = Some r" for r
  proof -
    have "r \<in> set ?rs \<longleftrightarrow> (\<exists>k. (k, r) \<in> set (records s))"
      by (simp add: image_iff Bex_def)
    also have "\<dots> \<longleftrightarrow> (r_Key r, r) \<in> set (records s)" using key by blast
    finally show ?thesis using assms(1) by (simp add: store_ok_def)
  qed
  moreover have "sorted (map r_Seq (filter (\<lambda>r. Dir (r_Key r) = Outbound) ?rs))"
  proof -
    let ?out = "filter (\<lambda>r. Dir (r_Key r) = Outbound) ?rs"
    have "sorted (map load_key ?out)"
      by (simp add: sorted_filter)
    then show ?thesis
      unfolding sorted_map by (rule sorted_wrt_mono_rel [rotated]) (auto simp: load_key_def word_le_nat_alt)
  qed
  ultimately show ?thesis
    by (simp add: x loaded_def store_view_def)
qed

interpretation mem: session_store store_view store_ok NewMemoryStore Load Put Delete SetMeta Store_Reset Close
proof
  show "store_ok NewMemoryStore" "store_view NewMemoryStore = empty_spec"
    by (simp_all add: store_ok_def store_view_def NewMemoryStore_def empty_spec_def fun_eq_iff)
next
  fix s s' ev err
  assume "store_ok s" "store_step Put Delete SetMeta Store_Reset Close s ev = (s', err)"
  then show "store_ok s' \<and> store_view s' = spec_step (store_view s) ev \<and>
      (err \<noteq> None \<longleftrightarrow> spec_refuses (store_view s) ev)"
    by (cases ev)
      (auto simp: store_step_def Put_def Delete_def SetMeta_def Store_Reset_def Close_def store_ok_def store_view_def
        spec_step_def spec_refuses_def fun_eq_iff split: option.splits if_splits)
next
  fix s
  assume "store_ok s"
  then show "case Load s of Inl _ \<Rightarrow> ended (store_view s) | Inr x \<Rightarrow> \<not> ended (store_view s) \<and> loaded (store_view s) x"
    using Load_loaded [of s] by (cases "Load s") (auto simp: store_view_def Load_def split: if_splits)
qed

subsection \<open>Properties\<close>

text \<open>C19. \<open>MemoryStore\<close> keeps the contract of \<open>Store\<close>: after any sequence of calls \<open>Load\<close> fails exactly
  when the store was closed, and otherwise returns the last meta and every record whose last write was an
  accepted \<open>Put\<close>, each once, the outbound ones ordered by \<open>Seq\<close>.\<close>

theorem MemoryStore_contract:
  "case Load (foldl (\<lambda>s ev. fst (store_step Put Delete SetMeta Store_Reset Close s ev)) NewMemoryStore evs) of
     Inl _ \<Rightarrow> ended (foldl spec_step empty_spec evs)
   | Inr x \<Rightarrow> \<not> ended (foldl spec_step empty_spec evs) \<and> loaded (foldl spec_step empty_spec evs) x"
  by (rule mem.load_run)

end
