(* ===== verification/Id_Table.thy ===== *)
theory Id_Table
  imports Client_Prelude
begin

text \<open>
  The packet identifiers of the in-flight engine (\<open>idTable\<close>, \<open>AllocateID\<close>, \<open>ReleaseID\<close> in
  \<open>internal/inflight/engine.go\<close>). The buffered channel \<open>inUse\<close> is its number of elements; a receive from
  the empty channel never returns and is the flag \<open>stuck\<close>. The search loop of \<open>take\<close> has no bound in
  the source, so it is a partial function, and that it returns is a theorem.
\<close>

subsection \<open>The table\<close>

datatype Owner = OwnerNone | OwnerPublish | OwnerSubscribe | OwnerUnsubscribe

record idTable =
  owner :: "u16 \<Rightarrow> Owner"
  next_id :: u16
  max_id :: u16
  inUse :: nat
  stuck :: bool

definition newIDTable :: "u16 \<Rightarrow> idTable" where
  "newIDTable m = \<lparr>owner = (\<lambda>_. OwnerNone), next_id = 1, max_id = m, inUse = 0, stuck = False\<rparr>"

definition advance :: "idTable \<Rightarrow> idTable" where
  "advance t = t\<lparr>next_id := if next_id t = max_id t then 1 else next_id t + 1\<rparr>"

partial_function (option) take_id :: "idTable \<Rightarrow> Owner \<Rightarrow> (idTable \<times> u16) option" where
  "take_id t ow =
     (let i = next_id t; t' = advance t in
      if owner t' i = OwnerNone then Some (t'\<lparr>owner := (owner t')(i := ow)\<rparr>, i) else take_id t' ow)"

definition claim :: "idTable \<Rightarrow> u16 \<Rightarrow> Owner \<Rightarrow> idTable \<times> bool" where
  "claim t i ow =
     (if i = 0 \<or> i > max_id t \<or> owner t i \<noteq> OwnerNone then (t, False)
      else if inUse t < unat (max_id t) then (t\<lparr>inUse := inUse t + 1, owner := (owner t)(i := ow)\<rparr>, True)
      else (t, False))"

definition release_id :: "idTable \<Rightarrow> u16 \<Rightarrow> Owner \<Rightarrow> idTable \<times> bool" where
  "release_id t i ow =
     (if i = 0 \<or> owner t i \<noteq> ow then (t, False)
      else if inUse t = 0 then (t\<lparr>owner := (owner t)(i := OwnerNone), stuck := True\<rparr>, True)
      else (t\<lparr>owner := (owner t)(i := OwnerNone), inUse := inUse t - 1\<rparr>, True))"

text \<open>A send to \<open>inUse\<close>; \<open>None\<close> when the channel is full.\<close>

definition reserve :: "idTable \<Rightarrow> idTable option" where
  "reserve t = (if inUse t < unat (max_id t) then Some (t\<lparr>inUse := inUse t + 1\<rparr>) else None)"

text \<open>\<open>AllocateID\<close> sends to \<open>inUse\<close> without the mutex and then takes an identifier under it. When the channel
  is full it waits until the send succeeds, its context ends or its stop channel closes. A call is where it
  stands, whether its context has ended, and its stop channel: \<open>None\<close> is nil, \<open>Some b\<close> a channel that is
  closed or not. \<open>AllocateID\<close> lists the outcomes of the call's next step, more than one where \<open>select\<close> may choose;
  a call that has none is blocked or has returned.\<close>

datatype alloc_error = ErrIDsExhausted | ErrStopped
datatype alloc_pc = Trying | Waiting | Reserved | Returned "alloc_error + u16"

record alloc_call =
  al_owner :: Owner
  al_ctx_ended :: bool
  al_stop :: "bool option"
  al_pc :: alloc_pc

definition AllocateID :: "idTable \<Rightarrow> alloc_call \<Rightarrow> (idTable \<times> alloc_pc) list" where
  "AllocateID t c =
     (case al_pc c of
        Trying \<Rightarrow> (case reserve t of Some t' \<Rightarrow> [(t', Reserved)] | None \<Rightarrow> [(t, Waiting)])
      | Waiting \<Rightarrow>
          (case reserve t of Some t' \<Rightarrow> [(t', Reserved)] | None \<Rightarrow> []) @
          (if al_ctx_ended c then [(t, Returned (Inl ErrIDsExhausted))] else []) @
          (if al_stop c = Some True then [(t, Returned (Inl ErrStopped))] else [])
      | Reserved \<Rightarrow> (case take_id t (al_owner c) of Some (t', i) \<Rightarrow> [(t', Returned (Inr i))] | None \<Rightarrow> [])
      | Returned _ \<Rightarrow> [])"

text \<open>\<open>Restore\<close> starts over with an empty table and a new channel.\<close>

definition Restore_ids :: "idTable \<Rightarrow> idTable" where
  "Restore_ids t = newIDTable (max_id t)"

subsection \<open>Invariant\<close>

definition owned :: "idTable \<Rightarrow> u16 set" where
  "owned t = {i. owner t i \<noteq> OwnerNone}"

text \<open>\<open>n\<close> is the number of callers that have reserved and not yet taken an identifier.\<close>

definition ids_ok :: "nat \<Rightarrow> idTable \<Rightarrow> bool" where
  "ids_ok n t = (0 < next_id t \<and> next_id t \<le> max_id t \<and> owned t \<subseteq> {0 <.. max_id t} \<and>
     card (owned t) + n = inUse t \<and> inUse t \<le> unat (max_id t) \<and> \<not> stuck t)"

lemma finite_owned [simp]: "finite (owned t)"
  by (rule finite)

lemma card_ids: "card {0 <.. m :: u16} = unat m"
proof -
  have "unat ` {0 <.. m} = {0 <.. unat m}"
  proof (intro equalityI subsetI)
    fix x assume "x \<in> {0 <.. unat m}"
    moreover have "unat m < 2 ^ 16" using unat_less(2) [of m] by simp
    ultimately have "unat (of_nat x :: u16) = x" by (simp add: unat_of_nat take_bit_eq_mod)
    with \<open>x \<in> _\<close> show "x \<in> unat ` {0 <.. m}"
      by (intro image_eqI [of _ _ "of_nat x"]) (auto simp: word_less_nat_alt word_le_nat_alt)
  qed (auto simp: word_less_nat_alt word_le_nat_alt)
  moreover have "inj_on unat {0 <.. m}" by (auto intro: inj_onI simp: word_unat_eq_iff)
  ultimately show ?thesis by (metis card_greaterThanAtMost card_image diff_zero)
qed

lemma ids_ok_new: "0 < m \<Longrightarrow> ids_ok 0 (newIDTable m)"
  by (simp add: ids_ok_def newIDTable_def owned_def word_less_nat_alt word_le_nat_alt)

lemma owned_upd: "owned (t\<lparr>owner := (owner t)(i := ow)\<rparr>) = (if ow = OwnerNone then owned t - {i} else insert i (owned t))"
  by (auto simp: owned_def)

lemma owned_other [simp]:
  "owned (t\<lparr>inUse := n\<rparr>) = owned t" "owned (t\<lparr>next_id := i\<rparr>) = owned t" "owned (t\<lparr>stuck := b\<rparr>) = owned t"
  "owned (advance t) = owned t"
  by (simp_all add: owned_def advance_def)

lemma ids_ok_reserve: "ids_ok n t \<Longrightarrow> reserve t = Some t' \<Longrightarrow> ids_ok (n + 1) t'"
  by (auto simp: ids_ok_def reserve_def split: if_splits)

lemma ids_ok_claim:
  assumes "ids_ok n t" and "claim t i ow = (t', ok)" and "ow \<noteq> OwnerNone"
  shows "ids_ok n t' \<and> (ok \<longleftrightarrow> 0 < i \<and> i \<le> max_id t \<and> owner t i = OwnerNone \<and> inUse t < unat (max_id t)) \<and>
    owner t' = (if ok then (owner t)(i := ow) else owner t) \<and> max_id t' = max_id t"
proof (cases "0 < i \<and> i \<le> max_id t \<and> owner t i = OwnerNone \<and> inUse t < unat (max_id t)")
  case True
  then have t': "t' = t\<lparr>inUse := inUse t + 1, owner := (owner t)(i := ow)\<rparr>" "ok"
    using assms(2) by (auto simp: claim_def split: if_splits)
  have "owned t' = insert i (owned t)" "i \<notin> owned t"
    using assms(3) True by (auto simp: t'(1) owned_def)
  then show ?thesis
    using assms(1) True by (auto simp: ids_ok_def t')
next
  case False
  then show ?thesis
    using assms(1,2) by (auto simp: claim_def word_gt_0 split: if_splits)
qed

lemma ids_ok_release:
  assumes "ids_ok n t" and "release_id t i ow = (t', ok)" and "ow \<noteq> OwnerNone"
  shows "ids_ok n t' \<and> (ok \<longleftrightarrow> owner t i = ow) \<and>
    owner t' = (if ok then (owner t)(i := OwnerNone) else owner t) \<and> max_id t' = max_id t"
proof -
  have 0: "owner t 0 \<noteq> ow" using assms by (auto simp: ids_ok_def owned_def)
  show ?thesis
  proof (cases "owner t i = ow")
    case True
    then have i: "i \<in> owned t" using assms(3) by (simp add: owned_def)
    then have "0 < card (owned t)" by (auto simp: card_gt_0_iff)
    then have "inUse t \<noteq> 0" using assms(1) by (simp add: ids_ok_def)
    then have t': "t' = t\<lparr>owner := (owner t)(i := OwnerNone), inUse := inUse t - 1\<rparr>" "ok"
      using assms(2) True 0 by (auto simp: release_id_def split: if_splits)
    have "owned t' = owned t - {i}" by (auto simp: t'(1) owned_def)
    then show ?thesis
      using assms(1) i \<open>0 < card (owned t)\<close> True by (auto simp: ids_ok_def t' card_Diff_singleton)
  next
    case False
    then show ?thesis using assms(1,2) by (auto simp: release_id_def)
  qed
qed

subsection \<open>The search for a free identifier\<close>

definition cyclic_dist :: "nat \<Rightarrow> nat \<Rightarrow> nat \<Rightarrow> nat" where
  "cyclic_dist m n f = (f + m - n) mod m"

lemma cyclic_dist_step:
  assumes "0 < n" "n \<le> m" "0 < f" "f \<le> m" "n \<noteq> f"
  shows "cyclic_dist m n f = cyclic_dist m (if n = m then 1 else n + 1) f + 1"
proof (cases "n < f")
  case True
  then have "f + m - n = m + (f - n)" "f + m - (n + 1) = m + (f - (n + 1))" using assms by linarith+
  then have "(f + m - n) mod m = f - n" "(f + m - (n + 1)) mod m = f - (n + 1)"
    using assms by (simp_all only: mod_add_self1) simp_all
  then show ?thesis
    using True assms by (simp add: cyclic_dist_def)
next
  case False
  then have "f + m - 1 = m + (f - 1)" "f < m" using assms by linarith+
  then have "(f + m - 1) mod m = f - 1"
    by (simp only: mod_add_self1) simp
  then show ?thesis
    using False assms by (cases "n = m") (simp_all add: cyclic_dist_def)
qed

lemma cyclic_dist_0: "0 < m \<Longrightarrow> cyclic_dist m n n = 0"
  by (simp add: cyclic_dist_def)

abbreviation id_dist :: "idTable \<Rightarrow> u16 \<Rightarrow> nat" where
  "id_dist t i \<equiv> cyclic_dist (unat (max_id t)) (unat (next_id t)) (unat i)"

lemma advance_simps [simp]:
  "owner (advance t) = owner t" "max_id (advance t) = max_id t" "inUse (advance t) = inUse t"
  "stuck (advance t) = stuck t"
  by (simp_all add: advance_def)

lemma advance_range:
  assumes "0 < next_id t" "next_id t \<le> max_id t"
  shows "0 < next_id (advance t)" "next_id (advance t) \<le> max_id t"
    "unat (next_id (advance t)) = (if unat (next_id t) = unat (max_id t) then 1 else unat (next_id t) + 1)"
proof -
  have "unat (next_id t) < unat (max_id t)" if "next_id t \<noteq> max_id t"
    using assms that by (simp add: word_le_nat_alt word_unat_eq_iff)
  then have "unat (next_id t + 1) = unat (next_id t) + 1" if "next_id t \<noteq> max_id t"
    using that unat_less(2) [of "max_id t"] by (simp add: unat_word_ariths)
  then show "unat (next_id (advance t)) = (if unat (next_id t) = unat (max_id t) then 1 else unat (next_id t) + 1)"
    by (auto simp: advance_def word_unat_eq_iff)
  then show "0 < next_id (advance t)" "next_id (advance t) \<le> max_id t"
    using assms by (auto simp: word_less_nat_alt word_le_nat_alt split: if_splits)
qed

lemma take_id_first:
  assumes "0 < next_id t" "next_id t \<le> max_id t" and "0 < f" "f \<le> max_id t" "owner t f = OwnerNone"
  shows "\<exists>t' i. take_id t ow = Some (t', i) \<and> owner t i = OwnerNone \<and> 0 < i \<and> i \<le> max_id t \<and>
    0 < next_id t' \<and> next_id t' \<le> max_id t \<and> t' = t\<lparr>owner := (owner t)(i := ow), next_id := next_id t'\<rparr> \<and>
    (\<forall>g. 0 < g \<longrightarrow> g \<le> max_id t \<longrightarrow> owner t g = OwnerNone \<longrightarrow> id_dist t i \<le> id_dist t g)"
  using assms
proof (induction "id_dist t f" arbitrary: t)
  case (0 t)
  then have "f = next_id t"
    using cyclic_dist_step [of "unat (next_id t)" "unat (max_id t)" "unat f"]
    by (cases "unat (next_id t) = unat f") (auto simp: word_less_nat_alt word_le_nat_alt word_unat_eq_iff)
  with 0 advance_range [of t] show ?case
    by (subst take_id.simps) (auto simp: Let_def cyclic_dist_0 word_less_nat_alt advance_def)
next
  case (Suc d t)
  note nx = advance_range [OF Suc.prems(1,2)]
  have step: "id_dist t g = id_dist (advance t) g + 1" if "0 < g" "g \<le> max_id t" "g \<noteq> next_id t" for g
    using cyclic_dist_step [of "unat (next_id t)" "unat (max_id t)" "unat g"] that Suc.prems(1,2) nx(3)
    by (simp add: word_less_nat_alt word_le_nat_alt word_unat_eq_iff)
  show ?case
  proof (cases "owner t (next_id t) = OwnerNone")
    case True
    moreover have "id_dist t (next_id t) = 0"
      using Suc.prems(1,2) by (simp add: cyclic_dist_0 word_less_nat_alt word_le_nat_alt)
    ultimately show ?thesis
      using Suc.prems(1,2) nx by (subst take_id.simps) (simp add: Let_def advance_def)
  next
    case False
    with Suc.prems step have "d = id_dist (advance t) f"
      using Suc.hyps(2) by fastforce
    from Suc.hyps(1) [OF this] Suc.prems nx obtain t' i where
      t': "take_id (advance t) ow = Some (t', i)" "owner t i = OwnerNone" "0 < i" "i \<le> max_id t"
      "0 < next_id t'" "next_id t' \<le> max_id t" "t' = (advance t)\<lparr>owner := (owner t)(i := ow), next_id := next_id t'\<rparr>"
      and first: "\<forall>g. 0 < g \<longrightarrow> g \<le> max_id t \<longrightarrow> owner t g = OwnerNone \<longrightarrow> id_dist (advance t) i \<le> id_dist (advance t) g"
      by auto
    have "take_id t ow = Some (t', i)"
      using False t'(1) by (subst take_id.simps) (simp add: Let_def)
    moreover have "t' = t\<lparr>owner := (owner t)(i := ow), next_id := next_id t'\<rparr>"
      using t'(7) by (simp add: advance_def)
    moreover have "id_dist t i \<le> id_dist t g" if "0 < g" "g \<le> max_id t" "owner t g = OwnerNone" for g
    proof -
      have "i \<noteq> next_id t" "g \<noteq> next_id t" using t'(2) that(3) False by auto
      then show ?thesis using step [of i] step [of g] first that t'(3,4) by simp
    qed
    ultimately show ?thesis using t' by blast
  qed
qed

lemma reserved_free:
  assumes "ids_ok (Suc n) t"
  shows "\<exists>f. 0 < f \<and> f \<le> max_id t \<and> owner t f = OwnerNone"
proof (rule ccontr)
  assume "\<not> ?thesis"
  then have "{0 <.. max_id t} \<subseteq> owned t" by (auto simp: owned_def)
  then have "card {0 <.. max_id t} \<le> card (owned t)" by (rule card_mono [OF finite_owned])
  with assms show False by (simp add: card_ids ids_ok_def)
qed

lemma ids_ok_take:
  assumes "ids_ok (Suc n) t" and "ow \<noteq> OwnerNone"
  shows "\<exists>t' i. take_id t ow = Some (t', i) \<and> ids_ok n t' \<and> owner t i = OwnerNone \<and> 0 < i \<and> i \<le> max_id t \<and>
    owner t' = (owner t)(i := ow) \<and> max_id t' = max_id t \<and>
    (\<forall>g. 0 < g \<longrightarrow> g \<le> max_id t \<longrightarrow> owner t g = OwnerNone \<longrightarrow> id_dist t i \<le> id_dist t g)"
proof -
  obtain f where "0 < f" "f \<le> max_id t" "owner t f = OwnerNone"
    using reserved_free [OF assms(1)] by blast
  with take_id_first [of t f ow] assms(1) obtain t' i where
    t': "take_id t ow = Some (t', i)" "owner t i = OwnerNone" "0 < i" "i \<le> max_id t"
    "0 < next_id t'" "next_id t' \<le> max_id t" "t' = t\<lparr>owner := (owner t)(i := ow), next_id := next_id t'\<rparr>"
    and first: "\<forall>g. 0 < g \<longrightarrow> g \<le> max_id t \<longrightarrow> owner t g = OwnerNone \<longrightarrow> id_dist t i \<le> id_dist t g"
    by (auto simp: ids_ok_def)
  have "owned t' = insert i (owned t)" "i \<notin> owned t"
    using t'(2) assms(2) by (subst t'(7), auto simp: owned_def)
  moreover have "inUse t' = inUse t" "max_id t' = max_id t" "stuck t' = stuck t" "owner t' = (owner t)(i := ow)"
    by (subst t'(7), simp)+
  ultimately have "ids_ok n t'"
    using assms(1) t'(3-6) by (auto simp: ids_ok_def)
  with t'(1-4) first \<open>owner t' = _\<close> \<open>max_id t' = _\<close> show ?thesis by blast
qed

subsection \<open>Concurrent use\<close>

text \<open>The steps of concurrent callers: a caller reserves, a caller that has reserved takes an
  identifier, the engine claims one for a restored record, an owner releases its own, and \<open>Restore\<close> replaces
  the table at a moment when no caller holds a reservation in the old channel.\<close>

inductive id_step :: "nat \<times> idTable \<Rightarrow> nat \<times> idTable \<Rightarrow> bool" where
  Reserve: "reserve t = Some t' \<Longrightarrow> id_step (n, t) (n + 1, t')"
| Take: "take_id t ow = Some (t', i) \<Longrightarrow> ow \<noteq> OwnerNone \<Longrightarrow> id_step (n + 1, t) (n, t')"
| Claim: "claim t i ow = (t', ok) \<Longrightarrow> ow \<noteq> OwnerNone \<Longrightarrow> id_step (n, t) (n, t')"
| Release: "release_id t i ow = (t', ok) \<Longrightarrow> ow \<noteq> OwnerNone \<Longrightarrow> id_step (n, t) (n, t')"
| Restore: "id_step (0, t) (0, Restore_ids t)"

inductive_cases id_stepE: "id_step (n, t) (n', t')"

lemma id_step_ok: "id_step s s' \<Longrightarrow> ids_ok (fst s) (snd s) \<Longrightarrow> ids_ok (fst s') (snd s') \<and> max_id (snd s') = max_id (snd s)"
proof (induction rule: id_step.induct)
  case (Take t ow t' i n)
  then show ?case using ids_ok_take [of n t ow] by auto
next
  case (Reserve t t' n)
  then show ?case using ids_ok_reserve [of n t t'] by (auto simp: reserve_def split: if_splits)
next
  case (Restore t)
  then have "0 < max_id t" by (auto simp: ids_ok_def)
  then show ?case by (simp add: Restore_ids_def ids_ok_new) (simp add: newIDTable_def)
qed (auto dest: ids_ok_claim ids_ok_release)

lemma id_reach_ok:
  "id_step\<^sup>*\<^sup>* (0, newIDTable m) (n, t) \<Longrightarrow> 0 < m \<Longrightarrow> ids_ok n t \<and> max_id t = m"
proof (induction rule: rtranclp_induct2)
  case refl
  then show ?case using ids_ok_new by (simp add: newIDTable_def)
next
  case (step n t n' t')
  then show ?case using id_step_ok [of "(n, t)" "(n', t')"] by simp
qed

subsection \<open>Calls of AllocateID\<close>

text \<open>The table and every call made so far. \<open>Restore\<close> runs when no call is waiting for the old channel or
  holds a reservation in it; contexts end and stop channels close at any time.\<close>

type_synonym alloc_state = "idTable \<times> alloc_call list"

inductive alloc_step :: "alloc_state \<Rightarrow> alloc_state \<Rightarrow> bool" where
  Call: "ow \<noteq> OwnerNone \<Longrightarrow>
    alloc_step (t, cs) (t, cs @ [\<lparr>al_owner = ow, al_ctx_ended = ended, al_stop = stop, al_pc = Trying\<rparr>])"
| Run: "k < length cs \<Longrightarrow> (t', pc) \<in> set (AllocateID t (cs ! k)) \<Longrightarrow>
    alloc_step (t, cs) (t', cs[k := (cs ! k)\<lparr>al_pc := pc\<rparr>])"
| End_ctx: "k < length cs \<Longrightarrow> alloc_step (t, cs) (t, cs[k := (cs ! k)\<lparr>al_ctx_ended := True\<rparr>])"
| Close_stop: "k < length cs \<Longrightarrow> al_stop (cs ! k) = Some False \<Longrightarrow>
    alloc_step (t, cs) (t, cs[k := (cs ! k)\<lparr>al_stop := Some True\<rparr>])"
| Claim: "claim t i ow = (t', ok) \<Longrightarrow> ow \<noteq> OwnerNone \<Longrightarrow> alloc_step (t, cs) (t', cs)"
| Release: "release_id t i ow = (t', ok) \<Longrightarrow> ow \<noteq> OwnerNone \<Longrightarrow> alloc_step (t, cs) (t', cs)"
| Restore: "(\<forall>c \<in> set cs. al_pc c \<noteq> Waiting \<and> al_pc c \<noteq> Reserved) \<Longrightarrow> alloc_step (t, cs) (Restore_ids t, cs)"

definition reservations :: "alloc_call list \<Rightarrow> nat" where
  "reservations cs = length (filter (\<lambda>c. al_pc c = Reserved) cs)"

lemma reservations_simps [simp]:
  "reservations [] = 0" "reservations (c # cs) = (if al_pc c = Reserved then 1 else 0) + reservations cs"
  "reservations (cs @ ds) = reservations cs + reservations ds"
  by (simp_all add: reservations_def)

lemma reservations_update:
  "k < length cs \<Longrightarrow> reservations (cs[k := c]) + (if al_pc (cs ! k) = Reserved then 1 else 0) =
     reservations cs + (if al_pc c = Reserved then 1 else 0)"
proof (induction cs arbitrary: k)
  case (Cons a cs)
  then show ?case using Cons.IH [of "k - 1"] by (cases k) simp_all
qed simp

lemma reservations_0: "reservations cs = 0 \<longleftrightarrow> (\<forall>c \<in> set cs. al_pc c \<noteq> Reserved)"
  by (induction cs) auto

lemma reservations_Suc: "c \<in> set cs \<Longrightarrow> al_pc c = Reserved \<Longrightarrow> \<exists>n. reservations cs = Suc n"
  using reservations_0 [of cs] not0_implies_Suc by blast

definition owners_set :: "alloc_call list \<Rightarrow> bool" where
  "owners_set cs \<longleftrightarrow> (\<forall>c \<in> set cs. al_owner c \<noteq> OwnerNone)"

lemma owners_set_update: "owners_set cs \<Longrightarrow> al_owner c \<noteq> OwnerNone \<Longrightarrow> owners_set (cs[k := c])"
  by (auto simp: owners_set_def dest!: set_update_subset_insert [THEN subsetD])

lemma owners_set_nth: "owners_set cs \<Longrightarrow> k < length cs \<Longrightarrow> al_owner (cs ! k) \<noteq> OwnerNone"
  by (simp add: owners_set_def)

text \<open>What one call does to the table is a step of the concurrent callers, or nothing.\<close>

lemma AllocateID_id_step:
  assumes k: "k < length cs" and run: "(t', pc) \<in> set (AllocateID t (cs ! k))" and ow: "owners_set cs"
  shows "id_step\<^sup>=\<^sup>= (reservations cs, t) (reservations (cs[k := (cs ! k)\<lparr>al_pc := pc\<rparr>]), t')"
proof -
  have r: "reservations (cs[k := (cs ! k)\<lparr>al_pc := pc\<rparr>]) + (if al_pc (cs ! k) = Reserved then 1 else 0) =
      reservations cs + (if pc = Reserved then 1 else 0)"
    using reservations_update [OF k, of "(cs ! k)\<lparr>al_pc := pc\<rparr>"] by simp
  show ?thesis
  proof (cases "al_pc (cs ! k) = Reserved")
    case True
    then obtain i where "take_id t (al_owner (cs ! k)) = Some (t', i)" "pc = Returned (Inr i)"
      using run by (cases "take_id t (al_owner (cs ! k))") (auto simp: AllocateID_def)
    moreover from this r True have "reservations cs = reservations (cs[k := (cs ! k)\<lparr>al_pc := pc\<rparr>]) + 1" by simp
    ultimately show ?thesis using id_step.Take owners_set_nth [OF ow k] by auto
  next
    case False
    with run consider "reserve t = Some t'" "pc = Reserved" | "t' = t" "pc \<noteq> Reserved"
      by (auto simp: AllocateID_def split: alloc_pc.splits option.splits if_splits)
    then show ?thesis
      using r False id_step.Reserve [of t t' "reservations cs"] by cases auto
  qed
qed

lemma alloc_id_step:
  "alloc_step s s' \<Longrightarrow> owners_set (snd s) \<Longrightarrow>
    owners_set (snd s') \<and> id_step\<^sup>=\<^sup>= (reservations (snd s), fst s) (reservations (snd s'), fst s')"
proof (induction rule: alloc_step.induct)
  case (Run k cs t' pc t)
  then show ?case using AllocateID_id_step [of k cs t' pc t] owners_set_nth by (simp add: owners_set_update)
next
  case (End_ctx k cs t)
  then show ?case
    using reservations_update [of k cs "(cs ! k)\<lparr>al_ctx_ended := True\<rparr>"] owners_set_nth by (auto simp: owners_set_update)
next
  case (Close_stop k cs t)
  then show ?case
    using reservations_update [of k cs "(cs ! k)\<lparr>al_stop := Some True\<rparr>"] owners_set_nth by (auto simp: owners_set_update)
next
  case (Restore cs t)
  then have "reservations cs = 0" by (simp add: reservations_0)
  then show ?case using Restore id_step.Restore [of t] by simp
qed (auto simp: owners_set_def intro: id_step.Claim id_step.Release)

lemma alloc_reach_id:
  "alloc_step\<^sup>*\<^sup>* (newIDTable m, []) (t, cs) \<Longrightarrow>
    owners_set cs \<and> id_step\<^sup>*\<^sup>* (0, newIDTable m) (reservations cs, t)"
proof (induction rule: rtranclp_induct2)
  case refl
  then show ?case by (simp add: owners_set_def)
next
  case (step t cs t' cs')
  then show ?case using alloc_id_step [of "(t, cs)" "(t', cs')"] by auto
qed

lemma alloc_reach_ok:
  assumes "alloc_step\<^sup>*\<^sup>* (newIDTable m, []) (t, cs)" and "0 < m"
  shows "ids_ok (reservations cs) t" "max_id t = m" "owners_set cs"
  using alloc_reach_id [OF assms(1)] id_reach_ok [OF _ assms(2)] by auto

subsection \<open>Properties\<close>

text \<open>C20. The search always ends: in every state concurrent callers can reach, a caller that has reserved
  gets an identifier between 1 and the maximum that nobody owned, the first such one in cyclic order
  from the hint, and becomes its owner; no other identifier changes hands.\<close>

theorem take_id_returns:
  assumes "id_step\<^sup>*\<^sup>* (0, newIDTable m) (n + 1, t)" and "0 < m" and "ow \<noteq> OwnerNone"
  shows "\<exists>t' i. take_id t ow = Some (t', i) \<and> 0 < i \<and> i \<le> m \<and> owner t i = OwnerNone \<and>
    owner t' = (owner t)(i := ow) \<and>
    (\<forall>g. 0 < g \<longrightarrow> g \<le> m \<longrightarrow> owner t g = OwnerNone \<longrightarrow> id_dist t i \<le> id_dist t g)"
proof -
  have ok: "ids_ok (Suc n) t" "max_id t = m"
    using id_reach_ok [OF assms(1,2)] by simp_all
  show ?thesis
    using ids_ok_take [OF ok(1) assms(3)] unfolding ok(2) by blast
qed

text \<open>A table of three identifiers of which two are owned, with one reservation: the hint is at the third.\<close>

definition example_ids :: "nat \<Rightarrow> idTable" where
  "example_ids n = \<lparr>owner = (\<lambda>_. OwnerNone)(1 := OwnerPublish, 2 := OwnerSubscribe), next_id = 3, max_id = 3,
     inUse = 2 + n, stuck = False\<rparr>"

lemma example_ids_reach:
  "id_step\<^sup>*\<^sup>* (0, newIDTable 3) (0, example_ids 0)" "id_step\<^sup>*\<^sup>* (0, newIDTable 3) (0 + 1, example_ids 1)"
proof -
  let ?t1 = "newIDTable 3\<lparr>inUse := 1\<rparr>"
  let ?t2 = "?t1\<lparr>owner := (owner ?t1)(1 := OwnerPublish), next_id := 2\<rparr>"
  have "id_step\<^sup>*\<^sup>* (0, newIDTable 3) (0 + 1, ?t1)"
    by (rule r_into_rtranclp, rule id_step.Reserve) (simp add: reserve_def newIDTable_def)
  also have "id_step (0 + 1, ?t1) (0, ?t2)"
    by (rule id_step.Take [where ow = OwnerPublish and i = 1])
      (subst take_id.simps, simp_all add: newIDTable_def Let_def advance_def)
  also have "id_step (0, ?t2) (0 + 1, ?t2\<lparr>inUse := 2\<rparr>)"
    by (rule id_step.Reserve) (simp add: reserve_def newIDTable_def)
  also have "id_step (0 + 1, ?t2\<lparr>inUse := 2\<rparr>) (0, example_ids 0)"
    by (rule id_step.Take [where ow = OwnerSubscribe and i = 2])
      (subst take_id.simps, simp_all add: newIDTable_def example_ids_def Let_def advance_def)
  finally show r: "id_step\<^sup>*\<^sup>* (0, newIDTable 3) (0, example_ids 0)" .
  have "id_step (0, example_ids 0) (0 + 1, example_ids 1)"
    by (rule id_step.Reserve) (simp add: reserve_def example_ids_def)
  with r show "id_step\<^sup>*\<^sup>* (0, newIDTable 3) (0 + 1, example_ids 1)"
    by (rule rtranclp.rtrancl_into_rtrancl)
qed

theorem take_id_returns_witness:
  "id_step\<^sup>*\<^sup>* (0, newIDTable 3) (0 + 1, example_ids 1) \<and>
    (\<exists>t' i. take_id (example_ids 1) OwnerPublish = Some (t', i) \<and> i \<noteq> 1 \<and> i \<noteq> 2 \<and> 0 < i \<and> i \<le> 3)"
proof -
  have "(0 :: u16) < 3" "OwnerPublish \<noteq> OwnerNone" by simp_all
  from take_id_returns [OF example_ids_reach(2) this]
  obtain t' i where i: "take_id (example_ids 1) OwnerPublish = Some (t', i)" "0 < i" "i \<le> 3"
    "owner (example_ids 1) i = OwnerNone" by blast
  have "i \<noteq> 1" "i \<noteq> 2" using i(4) by (auto simp: example_ids_def)
  with i example_ids_reach(2) show ?thesis by blast
qed

text \<open>C21. No identifier is lost or handed out twice: in every state calls of \<open>AllocateID\<close>, releases, claims and
  restores reach, a restore while no call waits or holds a reservation, the owned identifiers and the reservations of calls in progress add up to the elements
  of the channel, which never exceed the maximum; a release never waits on the channel with the mutex held;
  and a call that returns an identifier returns one between 1 and the maximum that nobody owned, becomes its
  owner and changes no other.\<close>

theorem AllocateID_accounting:
  assumes "alloc_step\<^sup>*\<^sup>* (newIDTable m, []) (t, cs)" and "0 < m"
  shows "card {i. owner t i \<noteq> OwnerNone} + reservations cs = inUse t \<and> inUse t \<le> unat m \<and> \<not> stuck t \<and>
    (\<forall>i ow. ow \<noteq> OwnerNone \<longrightarrow> \<not> stuck (fst (release_id t i ow))) \<and>
    (\<forall>c t' i. c \<in> set cs \<longrightarrow> (t', Returned (Inr i)) \<in> set (AllocateID t c) \<longrightarrow>
       0 < i \<and> i \<le> m \<and> owner t i = OwnerNone \<and> owner t' = (owner t)(i := al_owner c))"
proof -
  note ok = alloc_reach_ok [OF assms]
  have "\<not> stuck (fst (release_id t i ow))" if "ow \<noteq> OwnerNone" for i ow
    using ids_ok_release [OF ok(1) surjective_pairing that] by (simp add: ids_ok_def)
  moreover have "0 < i \<and> i \<le> m \<and> owner t i = OwnerNone \<and> owner t' = (owner t)(i := al_owner c)"
    if c: "c \<in> set cs" and run: "(t', Returned (Inr i)) \<in> set (AllocateID t c)" for c t' i
  proof -
    have take: "al_pc c = Reserved" "take_id t (al_owner c) = Some (t', i)"
      using run by (cases "take_id t (al_owner c)"; auto simp: AllocateID_def split: alloc_pc.splits option.splits if_splits)+
    then obtain n where "reservations cs = Suc n" using reservations_Suc [OF c] by blast
    then show ?thesis
      using ids_ok_take [of n t "al_owner c"] ok c take(2) by (auto simp: owners_set_def)
  qed
  ultimately show ?thesis using ok(1,2) by (simp add: ids_ok_def owned_def)
qed

text \<open>Three calls on a table of two identifiers: two have returned 1 and 2, the third waits.\<close>

definition example_call :: "alloc_pc \<Rightarrow> alloc_call" where
  "example_call pc = \<lparr>al_owner = OwnerPublish, al_ctx_ended = False, al_stop = None, al_pc = pc\<rparr>"

definition example_full :: idTable where
  "example_full = \<lparr>owner = (\<lambda>_. OwnerNone)(1 := OwnerPublish, 2 := OwnerPublish), next_id = 1, max_id = 2, inUse = 2, stuck = False\<rparr>"

abbreviation example_calls :: "alloc_call list" where
  "example_calls \<equiv> [example_call (Returned (Inr 1)), example_call (Returned (Inr 2)), example_call Waiting]"

lemmas example_alloc_defs = example_call_def example_full_def AllocateID_def reserve_def newIDTable_def

lemma take_id_hint:
  "owner t (next_id t) = OwnerNone \<Longrightarrow>
    take_id t ow = Some ((advance t)\<lparr>owner := (owner t)(next_id t := ow)\<rparr>, next_id t)"
  by (subst take_id.simps) (simp add: Let_def)

lemma example_call_step: "alloc_step (t, cs) (t, cs @ [example_call Trying])"
  unfolding example_call_def by (rule alloc_step.Call) simp

lemma example_run_step:
  assumes "(t', pc) \<in> set (AllocateID t (example_call pc0))"
  shows "alloc_step (t, cs @ [example_call pc0]) (t', cs @ [example_call pc])"
  using alloc_step.Run [of "length cs" "cs @ [example_call pc0]" t' pc t] assms by (simp add: example_call_def)

lemma example_full_reach: "alloc_step\<^sup>*\<^sup>* (newIDTable 2, []) (example_full, example_calls)"
proof -
  let ?t = "newIDTable 2"
  let ?t1 = "?t\<lparr>inUse := 1\<rparr>"
  let ?t2 = "?t1\<lparr>owner := (owner ?t1)(1 := OwnerPublish), next_id := 2\<rparr>"
  let ?t3 = "?t2\<lparr>inUse := 2\<rparr>"
  let ?c1 = "example_call (Returned (Inr 1))" and ?c2 = "example_call (Returned (Inr 2))"
  have "alloc_step\<^sup>*\<^sup>* (?t, []) (?t, [example_call Trying])" using example_call_step [of ?t "[]"] by auto
  also have "alloc_step (?t, [example_call Trying]) (?t1, [example_call Reserved])"
    using example_run_step [of ?t1 Reserved ?t Trying "[]"] by (simp add: example_alloc_defs)
  also have "alloc_step (?t1, [example_call Reserved]) (?t2, [?c1])"
    using example_run_step [of ?t2 "Returned (Inr 1)" ?t1 Reserved "[]"]
    by (simp add: example_alloc_defs take_id_hint advance_def)
  also have "alloc_step (?t2, [?c1]) (?t2, [?c1, example_call Trying])" using example_call_step [of ?t2 "[?c1]"] by simp
  also have "alloc_step (?t2, [?c1, example_call Trying]) (?t3, [?c1, example_call Reserved])"
    using example_run_step [of ?t3 Reserved ?t2 Trying "[?c1]"] by (simp add: example_alloc_defs)
  also have "alloc_step (?t3, [?c1, example_call Reserved]) (example_full, [?c1, ?c2])"
    using example_run_step [of example_full "Returned (Inr 2)" ?t3 Reserved "[?c1]"]
    by (simp add: example_alloc_defs take_id_hint advance_def)
  also have "alloc_step (example_full, [?c1, ?c2]) (example_full, [?c1, ?c2, example_call Trying])"
    using example_call_step [of example_full "[?c1, ?c2]"] by simp
  also have "alloc_step (example_full, [?c1, ?c2, example_call Trying]) (example_full, example_calls)"
    using example_run_step [of example_full Waiting example_full Trying "[?c1, ?c2]"] by (simp add: example_alloc_defs)
  finally show ?thesis .
qed

theorem AllocateID_accounting_witness:
  "alloc_step\<^sup>*\<^sup>* (newIDTable 2, []) (example_full, example_calls) \<and>
    card {i. owner example_full i \<noteq> OwnerNone} = 2 \<and> \<not> stuck (fst (release_id example_full 1 OwnerPublish))"
  using AllocateID_accounting [OF example_full_reach] example_full_reach by (simp add: example_alloc_defs)





end
