(* ===== verification/Flow_List.thy ===== *)
theory Flow_List
  imports Client_Prelude
begin

text \<open>
  The intrusive doubly linked list of outbound flows (\<open>flowList\<close>, \<open>push\<close>, \<open>remove\<close> in
  \<open>internal/inflight/outbound.go\<close>) on an explicit heap of flows. A flow's address is a number; \<open>fl_list\<close>
  names the list it is in, the engine's \<open>pub\<close> or \<open>rel\<close>. The last part shows that under the engine's pushes
  and unlinks the two lists are sequences.
\<close>

type_synonym oref = nat

datatype list_name = PubList | RelList

record flow_links =
  fl_list :: "list_name option"
  prev :: "oref option"
  "next" :: "oref option"

record flowList =
  head :: "oref option"
  tail :: "oref option"
  len :: nat

type_synonym flow_heap = "oref \<Rightarrow> flow_links"

definition empty_list :: flowList where
  "empty_list = \<lparr>head = None, tail = None, len = 0\<rparr>"

definition push :: "list_name \<Rightarrow> flow_heap \<times> flowList \<Rightarrow> oref \<Rightarrow> flow_heap \<times> flowList" where
  "push name hl r =
     (let (h, l) = hl;
          h = h(r := (h r)\<lparr>fl_list := Some name, prev := tail l, next := None\<rparr>);
          (h, l) = (case tail l of
                      Some t \<Rightarrow> (h(t := (h t)\<lparr>next := Some r\<rparr>), l)
                    | None \<Rightarrow> (h, l\<lparr>head := Some r\<rparr>))
      in (h, l\<lparr>tail := Some r, len := len l + 1\<rparr>))"

definition remove :: "flow_heap \<times> flowList \<Rightarrow> oref \<Rightarrow> flow_heap \<times> flowList" where
  "remove hl r =
     (let (h, l) = hl;
          (h, l) = (case prev (h r) of
                      Some p \<Rightarrow> (h(p := (h p)\<lparr>next := next (h r)\<rparr>), l)
                    | None \<Rightarrow> (h, l\<lparr>head := next (h r)\<rparr>));
          (h, l) = (case next (h r) of
                      Some n \<Rightarrow> (h(n := (h n)\<lparr>prev := prev (h r)\<rparr>), l)
                    | None \<Rightarrow> (h, l\<lparr>tail := prev (h r)\<rparr>));
          h = h(r := (h r)\<lparr>prev := None, next := None, fl_list := None\<rparr>)
      in (h, l\<lparr>len := len l - 1\<rparr>))"

text \<open>The loop \<open>for o := l.head; o != nil; o = o.next\<close>, which would not end on a cycle.\<close>

partial_function (option) traverse :: "flow_heap \<Rightarrow> oref option \<Rightarrow> oref list option" where
  "traverse h p = (case p of None \<Rightarrow> Some [] | Some r \<Rightarrow> Option.bind (traverse h (next (h r))) (\<lambda>rs. Some (r # rs)))"

subsection \<open>Representation of a sequence\<close>

definition first_of :: "oref list \<Rightarrow> oref option" where
  "first_of xs = (case xs of [] \<Rightarrow> None | x # _ \<Rightarrow> Some x)"

definition last_of :: "oref list \<Rightarrow> oref option" where
  "last_of xs = (if xs = [] then None else Some (last xs))"

fun linked :: "flow_heap \<Rightarrow> list_name \<Rightarrow> oref option \<Rightarrow> oref list \<Rightarrow> oref option \<Rightarrow> bool" where
  "linked h name p [] n = True"
| "linked h name p (x # xs) n =
     (fl_list (h x) = Some name \<and> prev (h x) = p \<and> next (h x) = (if xs = [] then n else Some (hd xs)) \<and>
      linked h name (Some x) xs n)"

definition represents :: "list_name \<Rightarrow> flow_heap \<times> flowList \<Rightarrow> oref list \<Rightarrow> bool" where
  "represents name = (\<lambda>(h, l) xs. distinct xs \<and> head l = first_of xs \<and> tail l = last_of xs \<and> len l = length xs \<and>
     linked h name None xs None)"

lemma ends_simps [simp]:
  "first_of [] = None" "first_of (x # xs) = Some x" "last_of [] = None"
  "first_of (xs @ ys) = (if xs = [] then first_of ys else first_of xs)"
  "last_of (x # xs) = (if xs = [] then Some x else last_of xs)"
  "last_of (xs @ ys) = (if ys = [] then last_of xs else last_of ys)"
  "last_of xs = None \<longleftrightarrow> xs = []" "first_of xs = None \<longleftrightarrow> xs = []"
  by (auto simp: first_of_def last_of_def split: list.splits)

lemma linked_append:
  "linked h name p (xs @ ys) n \<longleftrightarrow>
    linked h name p xs (if ys = [] then n else first_of ys) \<and> linked h name (if xs = [] then p else last_of xs) ys n"
  by (induction xs arbitrary: p) (auto simp: hd_append first_of_def split: list.splits)

lemma linked_other: "linked h name p xs n \<Longrightarrow> \<forall>x \<in> set xs. h' x = h x \<Longrightarrow> linked h' name p xs n"
  by (induction xs arbitrary: p) auto

lemma linked_next:
  assumes "linked h name p (xs @ [t]) n" and "\<forall>x \<in> set xs. h' x = h x" and "h' t = (h t)\<lparr>next := n'\<rparr>"
  shows "linked h' name p (xs @ [t]) n'"
  using assms linked_other [of h name p xs "Some t" h'] by (simp add: linked_append)

lemma linked_prev:
  assumes "linked h name p (t # xs) n" and "\<forall>x \<in> set xs. h' x = h x" and "h' t = (h t)\<lparr>prev := p'\<rparr>"
  shows "linked h' name p' (t # xs) n"
  using assms linked_other [of h name "Some t" xs n h'] by simp

lemma represents_empty: "represents name (h, empty_list) []"
  by (simp add: represents_def empty_list_def)

lemma represents_frame:
  "represents name (h, l) ys \<Longrightarrow> \<forall>y \<in> set ys. h' y = h y \<Longrightarrow> represents name (h', l) ys"
  by (auto simp: represents_def intro: linked_other)

lemma push_represents:
  assumes rep: "represents name (h, l) xs" and r: "r \<notin> set xs" and p: "push name (h, l) r = (h', l')"
  shows "represents name (h', l') (xs @ [r])" "\<And>y. y \<notin> set xs \<Longrightarrow> y \<noteq> r \<Longrightarrow> h' y = h y"
proof -
  have tl: "tail l = last_of xs" using rep by (simp add: represents_def)
  show "h' y = h y" if "y \<notin> set xs" "y \<noteq> r" for y
    using p that by (auto simp: push_def Let_def tl last_of_def split: option.splits if_splits)
  show "represents name (h', l') (xs @ [r])"
  proof (cases xs rule: rev_cases)
    case Nil
    then show ?thesis using rep p by (auto simp: represents_def push_def Let_def)
  next
    case (snoc zs t)
    then have n: "r \<noteq> t" "t \<notin> set zs" "r \<notin> set zs" using r rep by (auto simp: represents_def)
    have h': "h' t = (h t)\<lparr>next := Some r\<rparr>" "\<forall>x \<in> set zs. h' x = h x"
      "h' r = (h r)\<lparr>fl_list := Some name, prev := Some t, next := None\<rparr>" "head l' = head l" "tail l' = Some r" "len l' = len l + 1"
      using p n tl by (auto simp: push_def Let_def snoc)
    have "linked h' name None (zs @ [t]) (Some r)"
    proof (rule linked_next [OF _ h'(2,1)])
      show "linked h name None (zs @ [t]) None" using rep by (simp add: represents_def snoc)
    qed
    then show ?thesis
      using rep h' r by (simp add: represents_def snoc linked_append)
  qed
qed

lemma remove_eq:
  assumes "prev (h r) \<noteq> Some r" and "next (h r) \<noteq> Some r" and "remove (h, l) r = (h', l')"
  shows "h' r = (h r)\<lparr>prev := None, next := None, fl_list := None\<rparr>"
    and "y \<noteq> r \<Longrightarrow> prev (h r) \<noteq> Some y \<Longrightarrow> next (h r) \<noteq> Some y \<Longrightarrow> h' y = h y"
    and "prev (h r) = Some p \<Longrightarrow> next (h r) \<noteq> Some p \<Longrightarrow> h' p = (h p)\<lparr>next := next (h r)\<rparr>"
    and "next (h r) = Some n \<Longrightarrow> prev (h r) \<noteq> Some n \<Longrightarrow> h' n = (h n)\<lparr>prev := prev (h r)\<rparr>"
    and "head l' = (if prev (h r) = None then next (h r) else head l)"
    and "tail l' = (if next (h r) = None then prev (h r) else tail l)"
    and "len l' = len l - 1"
  using assms by (auto simp: remove_def Let_def split: option.splits)

lemma remove_represents:
  assumes rep: "represents name (h, l) (xs @ r # ys)" and rm: "remove (h, l) r = (h', l')"
  shows "represents name (h', l') (xs @ ys)" "\<And>y. y \<notin> set (xs @ r # ys) \<Longrightarrow> h' y = h y" "fl_list (h' r) = None"
proof -
  have d: "distinct (xs @ r # ys)" and lk: "linked h name None xs (Some r)" "linked h name (Some r) ys None"
    and ends: "head l = first_of (xs @ r # ys)" "tail l = last_of (xs @ r # ys)" "len l = length xs + length ys + 1"
    using rep by (auto simp: represents_def linked_append)
  have r: "prev (h r) = last_of xs" "next (h r) = first_of ys"
    using rep by (auto simp: represents_def linked_append first_of_def split: list.splits)
  have ne: "last_of xs \<noteq> Some y" if "y \<notin> set xs" for y
    using that by (auto simp: last_of_def)
  have ne': "first_of ys \<noteq> Some y" if "y \<notin> set ys" for y
    using that by (auto simp: first_of_def split: list.splits)
  have "prev (h r) \<noteq> Some r" "next (h r) \<noteq> Some r" using ne ne' d by (auto simp: r)
  note h' = remove_eq [OF this rm]
  show "h' y = h y" if "y \<notin> set (xs @ r # ys)" for y
    using that by (intro h'(2)) (auto simp: r ne ne')
  show "fl_list (h' r) = None" by (simp add: h'(1))
  have "linked h' name None xs (first_of ys)"
  proof (cases xs rule: rev_cases)
    case (snoc zs t)
    show ?thesis
      unfolding snoc
    proof (rule linked_next)
      show "linked h name None (zs @ [t]) (Some r)" using lk(1) by (simp add: snoc)
      show "\<forall>x \<in> set zs. h' x = h x"
      proof
        fix x assume "x \<in> set zs"
        then have "x \<noteq> r" "x \<noteq> t" "x \<notin> set ys" using d by (auto simp: snoc)
        then show "h' x = h x" by (intro h'(2)) (simp_all add: r snoc ne')
      qed
      show "h' t = (h t)\<lparr>next := first_of ys\<rparr>"
        using h'(3) [of t] d by (simp add: r snoc ne')
    qed
  qed simp
  moreover have "linked h' name (last_of xs) ys None"
  proof (cases ys)
    case (Cons t zs)
    show ?thesis
      unfolding Cons
    proof (rule linked_prev)
      show "linked h name (Some r) (t # zs) None" using lk(2) by (simp add: Cons)
      show "\<forall>x \<in> set zs. h' x = h x"
      proof
        fix x assume "x \<in> set zs"
        then have "x \<noteq> r" "x \<noteq> t" "x \<notin> set xs" using d by (auto simp: Cons)
        then show "h' x = h x" by (intro h'(2)) (simp_all add: r Cons ne)
      qed
      show "h' t = (h t)\<lparr>prev := last_of xs\<rparr>"
        using h'(4) [of t] d by (simp add: r Cons ne)
    qed
  qed simp
  ultimately show "represents name (h', l') (xs @ ys)"
    using d ends h'(5-7) by (auto simp: represents_def linked_append r)
qed

lemma traverse_linked: "linked h name p (x # xs) None \<Longrightarrow> traverse h (Some x) = Some (x # xs)"
proof (induction xs arbitrary: p x)
  case Nil
  then show ?case by (simp add: traverse.simps)
next
  case (Cons y ys)
  then have "traverse h (Some y) = Some (y # ys)" by (intro Cons.IH) simp
  with Cons.prems show ?case by (subst traverse.simps) simp
qed

lemma traverse_represents: "represents name (h, l) xs \<Longrightarrow> traverse h (head l) = Some xs"
  by (cases xs) (auto simp: represents_def traverse_linked, simp add: traverse.simps)

subsection \<open>The two lists of the engine\<close>

text \<open>The engine pushes a flow that is in no list, and unlinks a flow from the list it is in, if any
  (\<open>unlinkLocked\<close>). The reference is a pair of sequences.\<close>

datatype flow_op = PushOp list_name oref | UnlinkOp oref

record flow_lists =
  links :: flow_heap
  pub_list :: flowList
  rel_list :: flowList
  cursor :: "oref option"

definition no_flows :: flow_lists where
  "no_flows = \<lparr>links = (\<lambda>_. \<lparr>fl_list = None, prev = None, next = None\<rparr>), pub_list = empty_list, rel_list = empty_list, cursor = None\<rparr>"

definition unlinkLocked :: "flow_lists \<Rightarrow> oref \<Rightarrow> flow_lists" where
  "unlinkLocked s r =
     (let s = (if cursor s = Some r then s\<lparr>cursor := next (links s r)\<rparr> else s) in
      case fl_list (links s r) of
        None \<Rightarrow> s
      | Some PubList \<Rightarrow> (let (h, l) = remove (links s, pub_list s) r in s\<lparr>links := h, pub_list := l\<rparr>)
      | Some RelList \<Rightarrow> (let (h, l) = remove (links s, rel_list s) r in s\<lparr>links := h, rel_list := l\<rparr>))"

definition lists_step :: "flow_lists \<Rightarrow> flow_op \<Rightarrow> flow_lists" where
  "lists_step s ev =
     (case ev of
        PushOp PubList r \<Rightarrow> (let (h, l) = push PubList (links s, pub_list s) r in s\<lparr>links := h, pub_list := l\<rparr>)
      | PushOp RelList r \<Rightarrow> (let (h, l) = push RelList (links s, rel_list s) r in s\<lparr>links := h, rel_list := l\<rparr>)
      | UnlinkOp r \<Rightarrow> unlinkLocked s r)"

definition seq_step :: "oref list \<times> oref list \<Rightarrow> flow_op \<Rightarrow> oref list \<times> oref list" where
  "seq_step = (\<lambda>(xs, ys) ev. case ev of
     PushOp PubList r \<Rightarrow> (xs @ [r], ys)
   | PushOp RelList r \<Rightarrow> (xs, ys @ [r])
   | UnlinkOp r \<Rightarrow> (remove1 r xs, remove1 r ys))"

definition pushes_fresh :: "oref list \<times> oref list \<Rightarrow> flow_op \<Rightarrow> bool" where
  "pushes_fresh = (\<lambda>(xs, ys) ev. case ev of PushOp _ r \<Rightarrow> r \<notin> set xs \<and> r \<notin> set ys | UnlinkOp r \<Rightarrow> True)"

fun fresh_ops :: "oref list \<times> oref list \<Rightarrow> flow_op list \<Rightarrow> bool" where
  "fresh_ops q [] = True"
| "fresh_ops q (ev # evs) = (pushes_fresh q ev \<and> fresh_ops (seq_step q ev) evs)"

definition lists_represent :: "flow_lists \<Rightarrow> oref list \<times> oref list \<Rightarrow> bool" where
  "lists_represent s = (\<lambda>(xs, ys).
     represents PubList (links s, pub_list s) xs \<and> represents RelList (links s, rel_list s) ys \<and>
     set xs \<inter> set ys = {} \<and> (\<forall>r. r \<notin> set xs \<longrightarrow> r \<notin> set ys \<longrightarrow> fl_list (links s r) = None))"

lemma represents_fl_list: "represents name (h, l) xs \<Longrightarrow> r \<in> set xs \<Longrightarrow> fl_list (h r) = Some name"
proof -
  have "linked h name p xs n \<Longrightarrow> r \<in> set xs \<Longrightarrow> fl_list (h r) = Some name" for p n
    by (induction xs arbitrary: p) auto
  then show "represents name (h, l) xs \<Longrightarrow> r \<in> set xs \<Longrightarrow> fl_list (h r) = Some name"
    by (auto simp: represents_def)
qed

lemma push_step:
  assumes "represents name (h, l) xs" and "represents other (h, k) ys" and "set xs \<inter> set ys = {}"
    and "\<forall>q. q \<notin> set xs \<longrightarrow> q \<notin> set ys \<longrightarrow> fl_list (h q) = None" and "r \<notin> set xs" "r \<notin> set ys"
    and "push name (h, l) r = (h', l')"
  shows "represents name (h', l') (xs @ [r])" "represents other (h', k) ys"
    "\<forall>q. q \<notin> set (xs @ [r]) \<longrightarrow> q \<notin> set ys \<longrightarrow> fl_list (h' q) = None"
proof -
  note p = push_represents [OF assms(1,5,7)]
  show "represents name (h', l') (xs @ [r])" by (rule p(1))
  show "represents other (h', k) ys"
    using assms(3,6) p(2) by (intro represents_frame [OF assms(2)]) auto
  show "\<forall>q. q \<notin> set (xs @ [r]) \<longrightarrow> q \<notin> set ys \<longrightarrow> fl_list (h' q) = None"
    using p(2) assms(4) by auto
qed

lemma unlink_step:
  assumes "represents name (h, l) xs" and "represents other (h, k) ys" and "set xs \<inter> set ys = {}"
    and "\<forall>q. q \<notin> set xs \<longrightarrow> q \<notin> set ys \<longrightarrow> fl_list (h q) = None" and "r \<in> set xs"
    and "remove (h, l) r = (h', l')"
  shows "represents name (h', l') (remove1 r xs)" "represents other (h', k) ys" "remove1 r ys = ys"
    "set (remove1 r xs) \<inter> set ys = {}"
    "\<forall>q. q \<notin> set (remove1 r xs) \<longrightarrow> q \<notin> set ys \<longrightarrow> fl_list (h' q) = None"
proof -
  obtain as bs where xs: "xs = as @ r # bs" and as: "r \<notin> set as"
    using split_list_first [OF assms(5)] by blast
  then have rm: "remove1 r xs = as @ bs" by (simp add: remove1_append)
  note p = remove_represents [OF assms(1) [unfolded xs] assms(6)]
  show "represents name (h', l') (remove1 r xs)" using p(1) rm by simp
  show "represents other (h', k) ys"
  proof (rule represents_frame [OF assms(2)], rule ballI)
    fix y assume "y \<in> set ys"
    then have "y \<notin> set (as @ r # bs)" using assms(3) by (auto simp: xs)
    then show "h' y = h y" by (rule p(2))
  qed
  show "remove1 r ys = ys" using assms(3,5) by (auto intro: remove1_idem)
  show "set (remove1 r xs) \<inter> set ys = {}" using assms(3) set_remove1_subset [of r xs] by blast
  show "\<forall>q. q \<notin> set (remove1 r xs) \<longrightarrow> q \<notin> set ys \<longrightarrow> fl_list (h' q) = None"
  proof (intro allI impI)
    fix q assume q: "q \<notin> set (remove1 r xs)" "q \<notin> set ys"
    show "fl_list (h' q) = None"
    proof (cases "q = r")
      case False
      then have "q \<notin> set xs" using q(1) in_set_remove1 [of q r xs] by blast
      then show ?thesis using p(2) [of q] assms(4) q(2) by (simp add: xs)
    qed (simp add: p(3))
  qed
qed

lemma lists_step_represents:
  assumes rep: "lists_represent s (xs, ys)" and fresh: "pushes_fresh (xs, ys) ev"
  shows "lists_represent (lists_step s ev) (seq_step (xs, ys) ev)"
proof -
  note r = rep [unfolded lists_represent_def, simplified]
  have rx: "represents PubList (links s, pub_list s) xs" and ry: "represents RelList (links s, rel_list s) ys"
    and dj: "set xs \<inter> set ys = {}" "set ys \<inter> set xs = {}"
    and un: "\<forall>q. q \<notin> set xs \<longrightarrow> q \<notin> set ys \<longrightarrow> fl_list (links s q) = None"
      "\<forall>q. q \<notin> set ys \<longrightarrow> q \<notin> set xs \<longrightarrow> fl_list (links s q) = None"
    using r by auto
  show ?thesis
  proof (cases ev)
    case (PushOp name q)
    then have q: "q \<notin> set xs" "q \<notin> set ys" using fresh by (auto simp: pushes_fresh_def)
    show ?thesis
    proof (cases name)
      case PubList
      obtain h' l' where "push PubList (links s, pub_list s) q = (h', l')" by fastforce
      with push_step [OF rx ry dj(1) un(1) q this] q dj show ?thesis
        by (simp add: PushOp PubList lists_step_def seq_step_def lists_represent_def)
    next
      case RelList
      obtain h' l' where "push RelList (links s, rel_list s) q = (h', l')" by fastforce
      with push_step [OF ry rx dj(2) un(2) q(2,1) this] q dj show ?thesis
        by (auto simp: PushOp RelList lists_step_def seq_step_def lists_represent_def)
    qed
  next
    case (UnlinkOp q)
    consider "q \<in> set xs" | "q \<in> set ys" | "q \<notin> set xs" "q \<notin> set ys" by blast
    then show ?thesis
    proof cases
      case 1
      obtain h' l' where "remove (links s, pub_list s) q = (h', l')" by fastforce
      with unlink_step [OF rx ry dj(1) un(1) 1 this] represents_fl_list [OF rx 1] show ?thesis
        by (simp add: UnlinkOp lists_step_def unlinkLocked_def Let_def seq_step_def lists_represent_def)
    next
      case 2
      obtain h' l' where "remove (links s, rel_list s) q = (h', l')" by fastforce
      with unlink_step [OF ry rx dj(2) un(2) 2 this] represents_fl_list [OF ry 2] show ?thesis
        by (auto simp: UnlinkOp lists_step_def unlinkLocked_def Let_def seq_step_def lists_represent_def)
    next
      case 3
      with un(1) rep show ?thesis
        by (simp add: UnlinkOp lists_step_def unlinkLocked_def Let_def seq_step_def remove1_idem lists_represent_def)
    qed
  qed
qed

text \<open>The interface the engine uses, and what it gives for a sequence of operations.\<close>

locale flow_sequences =
  fixes rep :: "'s \<Rightarrow> oref list \<times> oref list \<Rightarrow> bool"
    and init :: 's
    and step :: "'s \<Rightarrow> flow_op \<Rightarrow> 's"
    and walk :: "'s \<Rightarrow> oref list option \<times> oref list option"
  assumes init: "rep init ([], [])"
    and step: "rep s q \<Longrightarrow> pushes_fresh q ev \<Longrightarrow> rep (step s ev) (seq_step q ev)"
    and walk: "rep s (xs, ys) \<Longrightarrow> walk s = (Some xs, Some ys)"
begin

lemma run: "rep s q \<Longrightarrow> fresh_ops q evs \<Longrightarrow> rep (foldl step s evs) (foldl seq_step q evs)"
  by (induction evs arbitrary: s q) (simp_all add: step)

lemma walk_run:
  assumes "fresh_ops ([], []) evs" and "foldl seq_step ([], []) evs = (xs, ys)"
  shows "walk (foldl step init evs) = (Some xs, Some ys)"
  using walk run [OF init assms(1)] assms(2) by simp

end

definition walk_lists :: "flow_lists \<Rightarrow> oref list option \<times> oref list option" where
  "walk_lists s = (traverse (links s) (head (pub_list s)), traverse (links s) (head (rel_list s)))"

interpretation flows: flow_sequences lists_represent no_flows lists_step walk_lists
proof
  show "lists_represent no_flows ([], [])"
    by (simp add: lists_represent_def no_flows_def represents_empty)
  show "lists_represent s q \<Longrightarrow> pushes_fresh q ev \<Longrightarrow> lists_represent (lists_step s ev) (seq_step q ev)" for s q ev
    by (cases q) (simp add: lists_step_represents)
  show "lists_represent s (xs, ys) \<Longrightarrow> walk_lists s = (Some xs, Some ys)" for s xs ys
    by (auto simp: lists_represent_def walk_lists_def intro: traverse_represents)
qed

subsection \<open>Properties\<close>

text \<open>C24. The linked lists are sequences: after any sequence of pushes of flows that are in no list, and of
  unlinks, following the \<open>next\<close> pointers from the head of either list ends and visits exactly the flows of
  the reference sequence, in its order.\<close>

theorem flowList_sequences:
  assumes "fresh_ops ([], []) evs" and "foldl seq_step ([], []) evs = (xs, ys)"
  shows "walk_lists (foldl lists_step no_flows evs) = (Some xs, Some ys)"
  by (rule flows.walk_run [OF assms])

theorem flowList_sequences_witness:
  "walk_lists (foldl lists_step no_flows
     [PushOp PubList 1, PushOp PubList 2, PushOp PubList 3, UnlinkOp 2, PushOp RelList 2, UnlinkOp 1]) = (Some [3], Some [2])"
  by (rule flowList_sequences) (simp_all add: pushes_fresh_def seq_step_def)

end
