(* ===== verification/Batch_Frames.thy ===== *)
theory Batch_Frames
  imports Client_Prelude PubResp_Packet
begin

text \<open>
  \<open>Frames\<close> (\<open>internal/inflight/engine.go\<close>): the batch of packets a writer sends with one write. Small
  packets are encoded into one buffer, stored PUBLISH packets are referenced. A segment's nil \<open>pkt\<close> is
  \<open>None\<close>. \<open>net.Buffers.WriteTo\<close> writes the buffers one after the other.
\<close>

record segment =
  seg_off :: nat
  seg_end :: nat
  seg_pkt :: "byte list option"

record Frames =
  small :: "byte list"
  segs :: "segment list"
  fr_n :: nat

definition Frames_Reset :: "Frames \<Rightarrow> Frames" where
  "Frames_Reset f = \<lparr>small = [], segs = [], fr_n = 0\<rparr>"

definition Frames_Len :: "Frames \<Rightarrow> nat" where
  "Frames_Len f = fr_n f"

definition extendSmall :: "Frames \<Rightarrow> nat \<Rightarrow> Frames" where
  "extendSmall f off =
     (if segs f \<noteq> [] \<and> seg_pkt (last (segs f)) = None \<and> seg_end (last (segs f)) = off
      then f\<lparr>segs := butlast (segs f) @ [(last (segs f))\<lparr>seg_end := length (small f)\<rparr>]\<rparr>
      else f\<lparr>segs := segs f @ [\<lparr>seg_off = off, seg_end = length (small f), seg_pkt = None\<rparr>]\<rparr>)"

definition appendAck :: "Frames \<Rightarrow> PacketType \<Rightarrow> u16 \<Rightarrow> ReasonCode \<Rightarrow> Frames" where
  "appendAck f t i rc =
     (let off = length (small f);
          f = f\<lparr>small := AppendPubResp (small f) t i rc\<rparr>;
          f = extendSmall f off
      in f\<lparr>fr_n := fr_n f + 1\<rparr>)"

definition appendPublish :: "Frames \<Rightarrow> byte list \<Rightarrow> bool \<Rightarrow> Frames gores" where
  "appendPublish f pkt dup =
     bindR (if dup then
              bindR (index pkt 0) (\<lambda>b.
                let off = length (small f);
                    f = extendSmall (f\<lparr>small := small f @ [b OR 0x08]\<rparr>) off
                in bindR (slice_from pkt 1) (\<lambda>pkt. Ok (f, pkt)))
            else Ok (f, pkt)) (\<lambda>(f, pkt).
       Ok (f\<lparr>segs := segs f @ [\<lparr>seg_off = 0, seg_end = 0, seg_pkt = Some pkt\<rparr>], fr_n := fr_n f + 1\<rparr>))"

definition seg_bytes :: "Frames \<Rightarrow> segment \<Rightarrow> byte list gores" where
  "seg_bytes f s =
     (case seg_pkt s of Some pkt \<Rightarrow> Ok pkt | None \<Rightarrow> slice (small f) (seg_off s) (seg_end s))"

primrec mapM :: "('a \<Rightarrow> 'b gores) \<Rightarrow> 'a list \<Rightarrow> 'b list gores" where
  "mapM f [] = Ok []"
| "mapM f (x # xs) = bindR (f x) (\<lambda>y. bindR (mapM f xs) (\<lambda>ys. Ok (y # ys)))"

definition Buffers :: "Frames \<Rightarrow> byte list list gores" where
  "Buffers f = mapM (seg_bytes f) (segs f)"

text \<open>What \<open>WriteTo\<close> hands to the writer.\<close>

definition WriteTo :: "Frames \<Rightarrow> byte list gores" where
  "WriteTo f =
     (if length (segs f) = 1 then bindR (index (segs f) 0) (seg_bytes f)
      else bindR (Buffers f) (\<lambda>bufs. Ok (concat bufs)))"

subsection \<open>The bytes of a batch\<close>

datatype frame_op = FAck PacketType u16 ReasonCode | FPublish "byte list" bool

primrec append_frame :: "frame_op \<Rightarrow> Frames \<Rightarrow> Frames gores" where
  "append_frame (FAck t i rc) f = Ok (appendAck f t i rc)"
| "append_frame (FPublish pkt dup) f = appendPublish f pkt dup"

fun append_frames :: "frame_op list \<Rightarrow> Frames \<Rightarrow> Frames gores" where
  "append_frames [] f = Ok f"
| "append_frames (x # xs) f = bindR (append_frame x f) (append_frames xs)"

text \<open>The packet as it should go out: a retransmission is the stored packet with DUP set.\<close>

primrec frame_bytes_of :: "frame_op \<Rightarrow> byte list" where
  "frame_bytes_of (FAck t i rc) = AppendPubResp [] t i rc"
| "frame_bytes_of (FPublish pkt dup) = (if dup then (hd pkt OR 0x08) # tl pkt else pkt)"

primrec sendable :: "frame_op \<Rightarrow> bool" where
  "sendable (FAck t i rc) = True"
| "sendable (FPublish pkt dup) = (pkt \<noteq> [])"

definition seg_range :: "Frames \<Rightarrow> segment \<Rightarrow> bool" where
  "seg_range f s = (seg_pkt s = None \<longrightarrow> seg_off s \<le> seg_end s \<and> seg_end s \<le> length (small f))"

definition seg_content :: "byte list \<Rightarrow> segment \<Rightarrow> byte list" where
  "seg_content sm s = (case seg_pkt s of Some pkt \<Rightarrow> pkt | None \<Rightarrow> take (seg_end s - seg_off s) (drop (seg_off s) sm))"

definition batch_bytes :: "Frames \<Rightarrow> byte list" where
  "batch_bytes f = concat (map (seg_content (small f)) (segs f))"

definition frames_ok :: "Frames \<Rightarrow> bool" where
  "frames_ok f = (\<forall>s \<in> set (segs f). seg_range f s)"

lemma seg_bytes_Ok: "seg_range f s \<Longrightarrow> seg_bytes f s = Ok (seg_content (small f) s)"
  by (auto simp: seg_bytes_def seg_range_def seg_content_def slice_def split: option.splits)

lemma Buffers_Ok: "frames_ok f \<Longrightarrow> Buffers f = Ok (map (seg_content (small f)) (segs f))"
proof -
  have "\<forall>s \<in> set ss. seg_range f s \<Longrightarrow> mapM (seg_bytes f) ss = Ok (map (seg_content (small f)) ss)" for ss
    by (induction ss) (simp_all add: seg_bytes_Ok)
  then show "frames_ok f \<Longrightarrow> Buffers f = Ok (map (seg_content (small f)) (segs f))"
    by (simp add: Buffers_def frames_ok_def)
qed

lemma WriteTo_Ok: "frames_ok f \<Longrightarrow> WriteTo f = Ok (batch_bytes f)"
  by (auto simp: WriteTo_def Buffers_Ok batch_bytes_def length_Suc_conv frames_ok_def seg_bytes_Ok index_def)

lemma seg_content_append: "seg_range f s \<Longrightarrow> seg_content (small f @ bs) s = seg_content (small f) s"
  by (auto simp: seg_content_def seg_range_def split: option.splits)

lemma extendSmall_bytes:
  assumes "frames_ok f"
  shows "frames_ok (extendSmall (f\<lparr>small := small f @ bs\<rparr>) (length (small f)))"
    "batch_bytes (extendSmall (f\<lparr>small := small f @ bs\<rparr>) (length (small f))) = batch_bytes f @ bs"
    "fr_n (extendSmall (f\<lparr>small := small f @ bs\<rparr>) (length (small f))) = fr_n f"
proof -
  have old: "map (seg_content (small f @ bs)) ss = map (seg_content (small f)) ss" if "set ss \<subseteq> set (segs f)" for ss
    using that assms by (auto simp: frames_ok_def seg_content_append)
  let ?f = "extendSmall (f\<lparr>small := small f @ bs\<rparr>) (length (small f))"
  show "fr_n ?f = fr_n f" by (simp add: extendSmall_def)
  show "frames_ok ?f"
  proof (cases "segs f" rule: rev_cases)
    case (snoc ss s)
    then show ?thesis
      using assms by (auto simp: extendSmall_def frames_ok_def seg_range_def)
  qed (simp add: extendSmall_def frames_ok_def seg_range_def)
  show "batch_bytes ?f = batch_bytes f @ bs"
  proof (cases "segs f" rule: rev_cases)
    case (snoc ss s)
    then have s: "seg_range f s" using assms by (simp add: frames_ok_def)
    have ss: "concat (map (seg_content (small f @ bs)) ss) = concat (map (seg_content (small f)) ss)"
      by (rule arg_cong [OF old]) (auto simp: snoc)
    have new: "seg_content (small f @ bs) \<lparr>seg_off = length (small f), seg_end = length (small f @ bs), seg_pkt = None\<rparr> = bs"
      by (simp add: seg_content_def)
    show ?thesis
    proof (cases "seg_pkt s = None \<and> seg_end s = length (small f)")
      case True
      then have "seg_content (small f @ bs) (s\<lparr>seg_end := length (small f @ bs)\<rparr>) = seg_content (small f) s @ bs"
        using s by (auto simp: seg_content_def seg_range_def)
      with True ss show ?thesis
        by (simp add: extendSmall_def batch_bytes_def snoc)
    next
      case False
      with ss new seg_content_append [OF s, of bs] show ?thesis
        by (auto simp: extendSmall_def batch_bytes_def snoc)
    qed
  qed (simp add: extendSmall_def batch_bytes_def seg_content_def)
qed

lemma AppendPubResp_append: "AppendPubResp dst t i rc = dst @ AppendPubResp [] t i rc"
  by (simp add: AppendPubResp_def Let_def)

lemma append_frame_bytes:
  assumes "frames_ok f" and "sendable x"
  shows "\<exists>f'. append_frame x f = Ok f' \<and> frames_ok f' \<and> batch_bytes f' = batch_bytes f @ frame_bytes_of x \<and> fr_n f' = fr_n f + 1"
proof -
  have add: "frames_ok (f\<lparr>segs := segs f @ [\<lparr>seg_off = 0, seg_end = 0, seg_pkt = Some pkt\<rparr>], fr_n := n\<rparr>) \<and>
      batch_bytes (f\<lparr>segs := segs f @ [\<lparr>seg_off = 0, seg_end = 0, seg_pkt = Some pkt\<rparr>], fr_n := n\<rparr>) = batch_bytes f @ pkt"
    if "frames_ok f" for f pkt n
    using that by (auto simp: frames_ok_def seg_range_def batch_bytes_def seg_content_def)
  have upd: "frames_ok (f\<lparr>fr_n := n\<rparr>) = frames_ok f" "batch_bytes (f\<lparr>fr_n := n\<rparr>) = batch_bytes f" for f n
    by (simp_all add: frames_ok_def batch_bytes_def seg_range_def)
  show ?thesis
  proof (cases x)
    case (FAck t i rc)
    then show ?thesis
      using extendSmall_bytes [OF assms(1), of "AppendPubResp [] t i rc"]
      by (simp add: appendAck_def Let_def AppendPubResp_append [of "small f"] upd)
  next
    case (FPublish pkt dup)
    with assms(2) obtain b bs where pkt: "pkt = b # bs" by (cases pkt) auto
    show ?thesis
    proof (cases dup)
      case True
      note e = extendSmall_bytes [OF assms(1), of "[b OR 0x08]"]
      show ?thesis
        using add [OF e(1)] e by (simp add: FPublish True pkt appendPublish_def index_def slice_from_def Let_def)
    next
      case False
      then show ?thesis
        using add [OF assms(1)] by (simp add: FPublish appendPublish_def)
    qed
  qed
qed

subsection \<open>Properties\<close>

text \<open>C25. A batch is the concatenation of its packets: starting from an empty batch, appending
  acknowledgements and nonempty PUBLISH packets never panics, counts them, and the buffers written are the
  bytes of the packets in that order, a retransmitted PUBLISH with its DUP flag set and nothing else changed.\<close>

theorem Frames_bytes:
  assumes "list_all sendable xs"
  shows "\<exists>f'. append_frames xs (Frames_Reset f) = Ok f' \<and> Frames_Len f' = length xs \<and>
    WriteTo f' = Ok (concat (map frame_bytes_of xs)) \<and>
    (\<exists>bufs. Buffers f' = Ok bufs \<and> concat bufs = concat (map frame_bytes_of xs))"
proof -
  have "\<exists>f'. append_frames xs f = Ok f' \<and> frames_ok f' \<and> batch_bytes f' = batch_bytes f @ concat (map frame_bytes_of xs) \<and>
      fr_n f' = fr_n f + length xs" if "frames_ok f" for f
    using assms that
  proof (induction xs arbitrary: f)
    case (Cons x xs)
    then obtain f' where f': "append_frame x f = Ok f'" "frames_ok f'" "batch_bytes f' = batch_bytes f @ frame_bytes_of x"
      "fr_n f' = fr_n f + 1"
      using append_frame_bytes [of f x] by auto
    with Cons.IH [OF _ f'(2)] Cons.prems(1) show ?case by auto
  qed simp
  from this [of "Frames_Reset f"] obtain f' where f': "append_frames xs (Frames_Reset f) = Ok f'" "frames_ok f'"
    "batch_bytes f' = concat (map frame_bytes_of xs)" "fr_n f' = length xs"
    by (auto simp: Frames_Reset_def frames_ok_def batch_bytes_def)
  then show ?thesis
    using WriteTo_Ok [OF f'(2)] Buffers_Ok [OF f'(2)] by (simp add: Frames_Len_def batch_bytes_def)
qed

theorem Frames_bytes_witness:
  "\<exists>f'. append_frames [FAck PUBACK 7 0, FPublish [0x32, 1, 0] True, FAck PUBREL 9 0] (Frames_Reset \<lparr>small = [1], segs = [], fr_n = 5\<rparr>) = Ok f' \<and>
    Frames_Len f' = 3 \<and> WriteTo f' = Ok [0x40, 2, 0, 7, 0x3A, 1, 0, 0x62, 2, 0, 9]"
  using Frames_bytes [of "[FAck PUBACK 7 0, FPublish [0x32, 1, 0] True, FAck PUBREL 9 0]"
    "\<lparr>small = [1], segs = [], fr_n = 5\<rparr>"]
  by (auto simp: AppendPubResp_def numeral_3_eq_3)

end
