(* ===== verification/Spec2Isabelle.thy ===== *)
theory Spec2Isabelle
  imports Wire_Theorems Topic_Trie Session_Store Id_Table Flow_List Batch_Frames
begin

text \<open>
  A verification library for the MQTT v5 client \<open>mqttv5\<close> (Go).

  \<^bold>\<open>The program.\<close> Package \<open>wire\<close> encodes and decodes MQTT v5 control packets: variable byte
  integers, strings and property sections, one encoder and decoder per packet type, and
  \<open>Decoder.ReadPacket\<close>, which frames a byte stream into validated packets. The client packages on top
  of it dispatch, acknowledge, persist and retransmit messages.

  \<^bold>\<open>Conventions.\<close> Theory \<open>Prelude\<close>: a fallible Go function returns \<open>('e, 'a) res\<close> with \<open>Ok\<close>, \<open>Err\<close>
  for a returned error and \<open>Panic\<close> for an index or slice expression out of range, so a theorem that
  excludes \<open>Panic\<close> is about memory safety. Bytes are \<open>8 word\<close>, strings and slices are byte lists,
  fixed-width integers are words of their width with wrap-around conversions written out, pointers and
  slices that may be nil are options. A function that writes at an offset of a buffer returns the
  buffer and the new offset; \<open>stores w bs\<close> says that such a writer stores exactly \<open>bs\<close>.

  \<^bold>\<open>Theories of package wire.\<close>
  \<^item> \<open>Wire_Types\<close>: packet types, reason codes, property identifiers, errors (\<open>codec.go\<close>,
    \<open>fields.go\<close>, \<open>validate.go\<close>).
  \<^item> \<open>Varint\<close>: \<open>EncodeVarint\<close>, \<open>DecodeVarint\<close>, \<open>ReadVarint\<close>, \<open>VarintSize\<close> (\<open>fields.go\<close>), against the
    reference encoding \<open>vbi\<close>.
  \<^item> \<open>Buf_Pool\<close>: the size classes of the frame buffers (\<open>codec.go\<close>); what \<open>sync.Pool\<close> returns is a
    parameter, and \<open>pool_ok\<close> is what \<open>New\<close> and \<open>releaseBuf\<close> guarantee about it.
  \<^item> \<open>Wire_Fields\<close>, \<open>Props\<close>: readers and writers of fields, property sections and their accessors
    (\<open>fields.go\<close>), against lists of properties.
  \<^item> \<open>Utf8\<close>, \<open>Topics\<close>: the eight-byte screens and the topic rules of section 4.7 (\<open>validate.go\<close>). The
    locale \<open>byte_screen\<close> is the argument that a screen may skip clean words.
  \<^item> \<open>Validate\<close>: header, property and option checks (\<open>validate.go\<close>). \<open>Property_Spec\<close>: the property tables of
    the standard, written out without reference to the masks of the code, and that \<open>validateProps\<close> decides them.
  \<^item> \<open>Packet_Frame\<close>, \<open>Publish_Packet\<close>, \<open>PubResp_Packet\<close>, \<open>Subscribe_Packet\<close>, \<open>Connect_Packet\<close>: options,
    encoders and decoders of the fifteen packet types (\<open>publish.go\<close>, \<open>subscribe.go\<close>, \<open>connect.go\<close>).
  \<^item> \<open>Decoder\<close>: \<open>validatePacket\<close>, \<open>readBody\<close>, \<open>ReadPacket\<close>, \<open>Ready\<close> (\<open>codec.go\<close>). The body loop has no
    static bound in the source; it is a partial function of the option type and returning is proved.
  \<^item> \<open>Packet_Codec\<close>: the locale \<open>packet_codec\<close>, the contract between one packet type's encoder and the
    decoder, interpreted for every packet type; \<open>Publish_Relay\<close>: an accepted PUBLISH is valid to send.
  \<^item> \<open>Wire_Theorems\<close>: the properties of the package: round trips of the packets through \<open>ReadPacket\<close>,
    what \<open>ReadPacket\<close> accepts, that it returns and never panics, the memory it allocates, the specifications of
    \<open>validateProps\<close>, \<open>ValidTopicFilter\<close> and the screens, the expiry patch, the length limit, \<open>Ready\<close>.

  \<^bold>\<open>Theories of the client packages.\<close> \<open>Client_Prelude\<close> holds what they share.
  \<^item> \<open>Topic_Trie\<close>: \<open>Register\<close>, \<open>Unregister\<close> with pruning, \<open>Reset\<close>, \<open>Nodes\<close> and \<open>Match\<close>
    (\<open>internal/trie/trie.go\<close>), against the list of live registrations and the matching rules of section 4.7. The
    lock is held for the whole of every operation, so an operation is one function on the tree.
  \<^item> \<open>Session_Store\<close>: session records, their validation and \<open>MemoryStore\<close> (\<open>session/store.go\<close>), against
    the contract that \<open>Store\<close> documents.
  \<^item> \<open>Id_Table\<close>: packet identifiers (\<open>idTable\<close>, \<open>AllocateID\<close>, \<open>ReleaseID\<close>, the table's part of \<open>Restore\<close> in
    \<open>internal/inflight/engine.go\<close>). Calls of \<open>AllocateID\<close> interleave; each is a program counter that may wait on the
    channel. The theorems: the accounting of identifiers, when a call is blocked and when it fails, that the
    search for a free identifier returns, and what a \<open>Restore\<close> under a reservation does.
  \<^item> \<open>Flow_List\<close>: the doubly linked lists of outbound flows (\<open>flowList\<close>, \<open>unlinkLocked\<close> in
    \<open>internal/inflight/outbound.go\<close>) on a heap, against sequences.
  \<^item> \<open>Batch_Frames\<close>: \<open>Frames\<close>, the packets of one write (\<open>internal/inflight/engine.go\<close>), against the
    concatenation of the packets.

  \<^bold>\<open>Bounds.\<close> No definition takes fuel. The loops without a static bound (\<open>readBody_loop\<close>, \<open>take_id\<close>, \<open>traverse\<close>)
  are partial functions of the option type whose value \<open>None\<close> is not returning; that they return is proved.

  \<^bold>\<open>Not modelled.\<close> Texts of errors, the recycling of packet structs (a packet is a value here, and
  \<open>Release\<close> only returns memory), concurrency inside \<open>sync.Pool\<close>, and the I/O below \<open>io.Reader\<close> and
  \<open>io.Writer\<close>: a reader is the list of bytes it will deliver, a writer is the list of buffers it gets.
  Of the in-flight engine only the parts above are modelled; its flows, store writes and failure handling, the
  client with its goroutines, sockets and timers, the file stores, transports, codecs and test support are not.
\<close>

end
